theory Spec2Isabelle
  imports Complex_Main "HOL-Library.Sublist"
begin

section \<open>Streaming utilities of the Python engine (streaming\_utils.py)\<close>

text \<open>
  The module \<^verbatim>\<open>djl_python/streaming_utils.py\<close> holds the class \<^verbatim>\<open>HFStreamer\<close>
  (a queue of decoded text chunks ended by a stop signal) and the class
  \<^verbatim>\<open>StreamingUtils\<close> (selection of the stream generator, the token-by-token
  stream generator itself, input validation, and the two decoding methods).
  Python names that start with an underscore lose it here, since an Isabelle
  name starts with a letter: \<^verbatim>\<open>_get_decoding_method\<close> is \<open>get_decoding_method\<close>.
\<close>

subsection \<open>Errors\<close>

text \<open>
  Every exception the module raises, or that an indexing or shape operation of
  the module raises, is a value. The strings of \<open>AssertionError\<close>,
  \<open>ValueError\<close> and \<open>NotImplementedError\<close> are the messages of the source
  (without the interpolated lists).
\<close>

datatype py_error =
    AssertionError string
  | ValueError string
  | NotImplementedError string
  | IndexError
  | RuntimeError
  | TypeError
  | AttributeError
  | BackendError string

subsection \<open>Keyword arguments\<close>

text \<open>
  \<^verbatim>\<open>**kwargs\<close> is a dictionary. The module reads ten keys of it; each is either
  absent (\<open>None\<close>) or present with a value of the type the data model gives the
  parameter. Float parameters are reals: the module only compares them
  with the constants \<open>1.0\<close> and \<open>0\<close>.
\<close>

record kwargs =
  max_new_tokens :: "int option"
  beam_size :: "int option"
  do_sample :: "bool option"
  temperature :: "real option"
  top_p :: "real option"
  top_k :: "int option"
  typical_p :: "real option"
  repetition_penalty :: "real option"
  manual_seed :: "int option"
  engine :: "string option"

definition no_kwargs :: kwargs where
  "no_kwargs = \<lparr>max_new_tokens = None, beam_size = None, do_sample = None,
     temperature = None, top_p = None, top_k = None, typical_p = None,
     repetition_penalty = None, manual_seed = None, engine = None\<rparr>"

subsection \<open>Class constants\<close>

definition DEFAULT_MAX_NEW_TOKENS :: int where
  "DEFAULT_MAX_NEW_TOKENS = 50"

definition SUPPORTED_MODEL_ARCH_SUFFIXES_CAUSAL_LM :: "string list" where
  "SUPPORTED_MODEL_ARCH_SUFFIXES_CAUSAL_LM = [''CausalLM'', ''GPT2LMHeadModel'']"

definition SUPPORTED_MODEL_ARCH_SUFFIXES_SEQ_2_SEQ_LM :: "string list" where
  "SUPPORTED_MODEL_ARCH_SUFFIXES_SEQ_2_SEQ_LM = [''T5ForConditionalGeneration'']"

definition SUPPORTED_MODEL_ARCH_SUFFIXES :: "string list" where
  "SUPPORTED_MODEL_ARCH_SUFFIXES =
     SUPPORTED_MODEL_ARCH_SUFFIXES_CAUSAL_LM @ SUPPORTED_MODEL_ARCH_SUFFIXES_SEQ_2_SEQ_LM"

definition BUILTIN_ENGINES :: "string set" where
  "BUILTIN_ENGINES = {''DeepSpeed'', ''Accelerate'', ''transformers-neuronx''}"

subsection \<open>Selection of the decoding method and of the stream generator\<close>

text \<open>
  \<^verbatim>\<open>_get_decoding_method\<close> returns one of two functions of the class; the
  datatype names which one. \<^verbatim>\<open>"k" in kwargs\<close> is \<open>k kw \<noteq> None\<close>.
\<close>

datatype decoding_method = Greedy_decoding | Sampling_decoding

definition get_decoding_method :: "kwargs \<Rightarrow> py_error + decoding_method" where
  "get_decoding_method kw =
     (if (case beam_size kw of None \<Rightarrow> False | Some b \<Rightarrow> b > 1)
        then Inl (NotImplementedError ''beam search is not supported yet!'')
      else if temperature kw \<noteq> None \<or> top_p kw \<noteq> None \<or> top_k kw \<noteq> None
              \<or> typical_p kw \<noteq> None
        then Inr Sampling_decoding
      else if (case do_sample kw of None \<Rightarrow> False | Some d \<Rightarrow> d)
        then Inr Sampling_decoding
      else Inr Greedy_decoding)"

text \<open>
  \<^verbatim>\<open>get_stream_generator\<close> returns the one stream generator of the class,
  \<^verbatim>\<open>_hf_model_stream_generator\<close>, or raises.
\<close>

datatype stream_generator = Hf_model_stream_generator

definition get_stream_generator :: "string \<Rightarrow> py_error + stream_generator" where
  "get_stream_generator execution_engine =
     (if execution_engine \<in> BUILTIN_ENGINES then Inr Hf_model_stream_generator
      else Inl (ValueError (execution_engine @ '' engine is not supported for streaming'')))"

subsection \<open>The external libraries\<close>

text \<open>
  The logits processors of \<^verbatim>\<open>transformers\<close> and the tensor operations of
  \<^verbatim>\<open>torch\<close> that the decoding methods call are not code of this module.
  They are parameters: \<open>'v\<close> is a tensor of scores over the vocabulary and
  \<open>'w\<close> is the ambient mutable state of the process (the global random
  generator of torch, and whatever state the model object keeps).
  \<open>multinomial\<close> is \<^verbatim>\<open>torch.multinomial(probs, num_samples=1)\<close>, which draws
  from the global generator and advances it; \<open>multinomial_seeded\<close> is the
  same draw from a fresh \<^verbatim>\<open>torch.Generator\<close> after \<^verbatim>\<open>manual_seed(seed)\<close>,
  which leaves the global generator alone.
\<close>

datatype processor =
    RepetitionPenaltyLogitsProcessor real
  | TemperatureLogitsWarper real
  | TopPLogitsWarper real
  | TopKLogitsWarper int
  | TypicalLogitsWarper real

record ('v, 'w) torch =
  processor_call :: "processor \<Rightarrow> int list \<Rightarrow> 'v \<Rightarrow> 'v"
  argmax :: "'v \<Rightarrow> int"
  softmax :: "'v \<Rightarrow> 'v"
  multinomial :: "'v \<Rightarrow> 'w \<Rightarrow> int \<times> 'w"
  multinomial_seeded :: "'v \<Rightarrow> int \<Rightarrow> int"

text \<open>
  Calling a \<^verbatim>\<open>LogitsProcessorList\<close> applies its processors from first to
  last, each to the scores the previous one returned.
\<close>

definition LogitsProcessorList_call ::
  "('v, 'w) torch \<Rightarrow> processor list \<Rightarrow> int list \<Rightarrow> 'v \<Rightarrow> 'v" where
  "LogitsProcessorList_call T processors input_ids scores =
     fold (\<lambda>p sc. processor_call T p input_ids sc) processors scores"

subsection \<open>The decoding methods\<close>

text \<open>
  The \<open>logits\<close> argument is the score tensor of one row: one vocabulary vector
  per position. Both methods replace the last position by the processed scores
  and read it; \<^verbatim>\<open>logits[-1]\<close> raises on a tensor with no position.
\<close>

definition greedy_processors :: "kwargs \<Rightarrow> processor list" where
  "greedy_processors kw =
     (case repetition_penalty kw of
        Some p \<Rightarrow> if p \<noteq> 1 then [RepetitionPenaltyLogitsProcessor p] else []
      | None \<Rightarrow> [])"

definition greedy_decoding ::
  "('v, 'w) torch \<Rightarrow> 'v list \<Rightarrow> int list \<Rightarrow> kwargs \<Rightarrow> py_error + int" where
  "greedy_decoding T logits input_ids kw =
     (case logits of
        [] \<Rightarrow> Inl IndexError
      | _ # _ \<Rightarrow>
          Inr (argmax T (LogitsProcessorList_call T (greedy_processors kw) input_ids
                 (last logits))))"

definition sampling_processors :: "kwargs \<Rightarrow> processor list" where
  "sampling_processors kw =
     (case repetition_penalty kw of
        Some p \<Rightarrow> if p \<noteq> 1 then [RepetitionPenaltyLogitsProcessor p] else []
      | None \<Rightarrow> [])
     @ (case temperature kw of
        Some t \<Rightarrow> if t \<noteq> 1 then [TemperatureLogitsWarper t] else []
      | None \<Rightarrow> [])
     @ (case top_p kw of
        Some p \<Rightarrow> if p < 1 then [TopPLogitsWarper p] else []
      | None \<Rightarrow> [])
     @ (case top_k kw of
        Some k \<Rightarrow> if k \<noteq> 0 then [TopKLogitsWarper k] else []
      | None \<Rightarrow> [])
     @ (case typical_p kw of
        Some p \<Rightarrow> if p < 1 then [TypicalLogitsWarper p] else []
      | None \<Rightarrow> [])"


text \<open>
  With \<^verbatim>\<open>manual_seed\<close> present the source seeds a local generator and draws
  from it, but does not keep that draw: the value returned is the draw of the
  last line, \<^verbatim>\<open>torch.multinomial(probs, num_samples=1)\<close>, from the global
  generator.
\<close>

definition sampling_decoding ::
  "('v, 'w) torch \<Rightarrow> 'v list \<Rightarrow> int list \<Rightarrow> kwargs \<Rightarrow> 'w \<Rightarrow> (py_error + int) \<times> 'w" where
  "sampling_decoding T logits input_ids kw w =
     (case logits of
        [] \<Rightarrow> (Inl IndexError, w)
      | _ # _ \<Rightarrow>
          (let probs = softmax T (LogitsProcessorList_call T (sampling_processors kw)
                          input_ids (last logits));
               discarded = (case manual_seed kw of
                              Some seed \<Rightarrow> Some (multinomial_seeded T probs seed)
                            | None \<Rightarrow> None)
           in case multinomial T probs w of (token, w') \<Rightarrow> (Inr token, w')))"

definition call_decoding_method ::
  "('v, 'w) torch \<Rightarrow> decoding_method \<Rightarrow> 'v list \<Rightarrow> int list \<Rightarrow> kwargs \<Rightarrow> 'w
     \<Rightarrow> (py_error + int) \<times> 'w" where
  "call_decoding_method T dm logits input_ids kw w =
     (case dm of
        Greedy_decoding \<Rightarrow> (greedy_decoding T logits input_ids kw, w)
      | Sampling_decoding \<Rightarrow> sampling_decoding T logits input_ids kw w)"

subsection \<open>Input validation and the generic model class\<close>

text \<open>
  \<^verbatim>\<open>model.config.architectures\<close> is \<^verbatim>\<open>None\<close> or a list of names;
  \<^verbatim>\<open>not model.config.architectures\<close> holds for \<^verbatim>\<open>None\<close> and for the empty
  list. The \<open>inputs\<close> argument is a list of strings or some other value.
  Both functions log through \<^verbatim>\<open>logging.warning\<close>: the warnings they emit are
  the first component of their results.
\<close>

record model_config =
  architectures :: "string list option"
  decoder_start_token_id :: int

datatype py_inputs = Inputs_list "string list" | Inputs_str string | Inputs_none

datatype generic_model_class = CausalLM | Seq2SeqLM

definition arch_list :: "model_config \<Rightarrow> string list" where
  "arch_list cfg = (case architectures cfg of None \<Rightarrow> [] | Some archs \<Rightarrow> archs)"

definition endswith :: "string \<Rightarrow> string \<Rightarrow> bool" where
  "endswith s suf = (length suf \<le> length s \<and> drop (length s - length suf) s = suf)"

definition endswith_any :: "string list \<Rightarrow> string \<Rightarrow> bool" where
  "endswith_any sufs s = list_ex (endswith s) sufs"

definition validate_inputs :: "model_config \<Rightarrow> py_inputs \<Rightarrow> string list \<times> (py_error + unit)" where
  "validate_inputs cfg inputs =
     (let check_inputs =
            (case inputs of
               Inputs_list l \<Rightarrow>
                 if length l \<ge> 1 then Inr () else Inl (AssertionError ''[ERROR] empty input list'')
             | _ \<Rightarrow> Inl (AssertionError ''inputs to stream generator must be a list of strings''))
      in if arch_list cfg = [] then
           ([''Model config does not contain architectures field. Supported architectures''],
            check_inputs)
         else if \<not> list_ex (endswith_any SUPPORTED_MODEL_ARCH_SUFFIXES) (arch_list cfg) then
           ([], Inl (AssertionError ''model archs is not in supported list''))
         else ([], check_inputs))"

definition get_generic_model_class :: "model_config \<Rightarrow> string list \<times> generic_model_class" where
  "get_generic_model_class cfg =
     (if arch_list cfg = [] then
        ([''Model config does not contain architectures field. Assuming it is CausalLM type''],
         CausalLM)
      else if list_ex (endswith_any SUPPORTED_MODEL_ARCH_SUFFIXES_SEQ_2_SEQ_LM) (arch_list cfg)
        then ([], Seq2SeqLM)
      else ([], CausalLM))"

subsection \<open>Tokenizer and model\<close>

text \<open>
  The tokenizer object has the attributes the generator reads and writes.
  Its methods are fields: \<open>tokenizer_call\<close> is
  \<^verbatim>\<open>tokenizer(inputs, return_tensors="pt", padding=True)\<close>, which depends on
  the current pad token and returns the \<^verbatim>\<open>input_ids\<close> and the
  \<^verbatim>\<open>attention_mask\<close> (or raises); \<open>decode\<close> turns the ids of one row into
  text, and \<^verbatim>\<open>batch_decode\<close> decodes row by row. The ids of the pad and
  end-of-sequence tokens are looked up from the tokens, as the properties
  \<^verbatim>\<open>pad_token_id\<close> and \<^verbatim>\<open>eos_token_id\<close> of the library do. A tensor of
  integers with two dimensions is a list of rows.
\<close>

record tokenizer =
  pad_token :: "string option"
  eos_token :: "string option"
  bos_token_id :: "int option"
  convert_tokens_to_ids :: "string \<Rightarrow> int"
  tokenizer_call :: "string option \<Rightarrow> string list \<Rightarrow> py_error + (int list list \<times> int list list)"
  decode :: "int list \<Rightarrow> string"

definition pad_token_id :: "tokenizer \<Rightarrow> int option" where
  "pad_token_id tk = map_option (convert_tokens_to_ids tk) (pad_token tk)"

definition eos_token_id :: "tokenizer \<Rightarrow> int option" where
  "eos_token_id tk = map_option (convert_tokens_to_ids tk) (eos_token tk)"

definition batch_decode :: "tokenizer \<Rightarrow> int list list \<Rightarrow> string list" where
  "batch_decode tk rows = map (decode tk) rows"

definition falsy_token :: "string option \<Rightarrow> bool" where
  "falsy_token t = (t = None \<or> t = Some [])"

text \<open>
  The model object: its configuration, its forward pass and, for the
  transformers-neuronx engine, \<^verbatim>\<open>reset_generation\<close>. A forward call is one of
  three shapes: the causal call with \<^verbatim>\<open>input_ids\<close>, \<^verbatim>\<open>attention_mask\<close>,
  \<^verbatim>\<open>past_key_values\<close> and \<^verbatim>\<open>use_cache\<close>; the same arguments passed through
  \<^verbatim>\<open>prepare_inputs_for_generation\<close> with \<^verbatim>\<open>return_dict\<close> set (neuronx); and
  the encoder-decoder call with \<^verbatim>\<open>input_ids\<close>, \<^verbatim>\<open>attention_mask\<close>,
  \<^verbatim>\<open>decoder_input_ids\<close>, \<^verbatim>\<open>decoder_attention_mask\<close>, \<^verbatim>\<open>encoder_outputs\<close>,
  \<^verbatim>\<open>past_key_values\<close> and \<^verbatim>\<open>use_cache\<close>. The caches are values of an
  opaque type \<open>'c\<close>. The forward pass may raise and may change the ambient state.
\<close>

datatype 'c forward_call =
    Forward_causal "int list list option" "int list list" "'c option" bool
  | Forward_neuronx "int list list option" "int list list" "'c option" bool
  | Forward_seq2seq "int list list option" "int list list" "int list list"
      "int list list option" "'c list option" "'c option" bool

record ('v, 'c) outputs =
  logits :: "'v list list"
  out_past_key_values :: 'c
  out_encoder_last_hidden_state :: 'c

record ('v, 'c, 'w) model =
  config :: model_config
  forward :: "'c forward_call \<Rightarrow> 'w \<Rightarrow> (py_error + ('v, 'c) outputs) \<times> 'w"
  reset_generation :: "'w \<Rightarrow> 'w"

subsection \<open>The stopping criterion\<close>

text \<open>
  \<^verbatim>\<open>not_eos_token_ids\<close> is the tensor of the rows' unfinished flags (one
  integer per row); \<^verbatim>\<open>.sum()\<close> adds them up.
\<close>

definition has_met_stopping_criteria :: "int list \<Rightarrow> int \<Rightarrow> int \<Rightarrow> bool" where
  "has_met_stopping_criteria not_eos_token_ids current_token_count max_new_tokens_v =
     (if sum_list not_eos_token_ids = 0 \<or> current_token_count \<ge> max_new_tokens_v
      then True else False)"

subsection \<open>The stream generator\<close>

text \<open>
  The local variables of \<^verbatim>\<open>_hf_model_stream_generator\<close> that change in its
  loop. \<open>token_text\<close> is what the iteration yields; \<open>world\<close> is the ambient
  state.
\<close>

record ('c, 'w) gen_state =
  input_ids :: "int list list option"
  decoder_input_ids :: "int list list"
  all_decoder_input_ids :: "int list list"
  attention_mask :: "int list list"
  curr_length :: nat
  past_key_values :: "'c option"
  encoder_last_hidden_state :: "'c list option"
  unfinished_sequences :: "int list"
  new_tokens_count :: int
  stop_generation :: bool
  token_text :: "string list"
  world :: 'w

text \<open>
  The \<^verbatim>\<open>for\<close> loop over the rows of \<^verbatim>\<open>outputs.logits\<close>: row \<open>i\<close> is decoded
  against row \<open>i\<close> of \<^verbatim>\<open>all_decoder_input_ids\<close>, which raises when there is no
  such row. The first error ends the loop.
\<close>

fun decode_rows ::
  "('v, 'w) torch \<Rightarrow> decoding_method \<Rightarrow> kwargs \<Rightarrow> 'v list list \<Rightarrow> int list list \<Rightarrow> 'w
     \<Rightarrow> (py_error + int list) \<times> 'w" where
  "decode_rows T dm kw [] ids w = (Inr [], w)"
| "decode_rows T dm kw (l # ls) [] w = (Inl IndexError, w)"
| "decode_rows T dm kw (l # ls) (r # rs) w =
     (case call_decoding_method T dm l r kw w of
        (Inl e, w') \<Rightarrow> (Inl e, w')
      | (Inr t, w') \<Rightarrow>
          (case decode_rows T dm kw ls rs w' of
             (Inl e, w'') \<Rightarrow> (Inl e, w'')
           | (Inr ts, w'') \<Rightarrow> (Inr (t # ts), w'')))"

text \<open>
  \<^verbatim>\<open>token_ids * unfinished_sequences + pad_token_id * unfinished_sequences.logical_not()\<close>,
  viewed as one column.
\<close>

definition mask_finished :: "int \<Rightarrow> int list \<Rightarrow> int list \<Rightarrow> int list list" where
  "mask_finished pad token_ids unfinished =
     map2 (\<lambda>t u. [t * u + pad * (if u = 0 then 1 else 0)]) token_ids unfinished"

text \<open>
  One pass through the body of \<^verbatim>\<open>while True\<close> after the test of
  \<^verbatim>\<open>stop_generation\<close>, up to the \<^verbatim>\<open>yield\<close>. The parameters after the
  tokenizer are the locals that stay fixed in the loop: \<^verbatim>\<open>kwargs\<close> (which
  holds \<^verbatim>\<open>engine\<close>), \<^verbatim>\<open>generic_model_class\<close>, \<^verbatim>\<open>max_new_tokens\<close>,
  \<^verbatim>\<open>decoding_method\<close> and \<^verbatim>\<open>len(inputs)\<close>. Concatenating the new tokens to
  \<^verbatim>\<open>all_decoder_input_ids\<close> and viewing them as \<^verbatim>\<open>len(inputs)\<close> rows raise
  when the numbers of rows differ; comparing with a missing
  \<^verbatim>\<open>eos_token_id\<close>, multiplying by a missing \<^verbatim>\<open>pad_token_id\<close>, and writing
  column \<^verbatim>\<open>curr_length\<close> of a narrower \<^verbatim>\<open>attention_mask\<close> raise too.
\<close>

definition gen_step ::
  "('v, 'w) torch \<Rightarrow> ('v, 'c, 'w) model \<Rightarrow> tokenizer \<Rightarrow> kwargs \<Rightarrow> generic_model_class \<Rightarrow> int
     \<Rightarrow> decoding_method \<Rightarrow> nat \<Rightarrow> ('c, 'w) gen_state \<Rightarrow> py_error + ('c, 'w) gen_state" where
  "gen_step T M tk kw cls mx dm n s =
     (let call =
        (case cls of
           CausalLM \<Rightarrow>
             (let attention_mask_curr = map (take (curr_length s)) (attention_mask s)
              in if engine kw = Some ''transformers-neuronx''
                 then Forward_neuronx (input_ids s) attention_mask_curr (past_key_values s) True
                 else Forward_causal (input_ids s) attention_mask_curr (past_key_values s) True)
         | Seq2SeqLM \<Rightarrow>
             Forward_seq2seq (input_ids s) (attention_mask s) (decoder_input_ids s) None
               (encoder_last_hidden_state s) (past_key_values s) True)
      in case forward M call (world s) of
           (Inl e, w1) \<Rightarrow> Inl e
         | (Inr out, w1) \<Rightarrow>
            (case decode_rows T dm kw (logits out) (all_decoder_input_ids s) w1 of
               (Inl e, w2) \<Rightarrow> Inl e
             | (Inr token_ids, w2) \<Rightarrow>
                if token_ids = [] \<or> length token_ids \<noteq> length (all_decoder_input_ids s)
                   \<or> length token_ids \<noteq> n
                then Inl RuntimeError
                else
                  (case eos_token_id tk of
                     None \<Rightarrow> Inl AttributeError
                   | Some eos \<Rightarrow>
                      (case pad_token_id tk of
                         None \<Rightarrow> Inl TypeError
                       | Some pad \<Rightarrow>
                          (let all_ids = map2 (\<lambda>row t. row @ [t]) (all_decoder_input_ids s) token_ids;
                               past = (if engine kw = None then Some (out_past_key_values out)
                                       else past_key_values s);
                               count = new_tokens_count s + 1;
                               unfinished = map2 (\<lambda>u t. u * (if t \<noteq> eos then 1 else 0))
                                              (unfinished_sequences s) token_ids;
                               step_ids = mask_finished pad token_ids unfinished;
                               stop = has_met_stopping_criteria unfinished count mx
                           in case cls of
                                CausalLM \<Rightarrow>
                                  if list_ex (\<lambda>row. curr_length s \<ge> length row) (attention_mask s)
                                  then Inl IndexError
                                  else Inr (s\<lparr>input_ids := Some step_ids,
                                        all_decoder_input_ids := all_ids,
                                        attention_mask :=
                                          map (\<lambda>row. row[curr_length s := 1]) (attention_mask s),
                                        curr_length := curr_length s + 1,
                                        past_key_values := past,
                                        unfinished_sequences := unfinished,
                                        new_tokens_count := count,
                                        stop_generation := stop,
                                        token_text := batch_decode tk step_ids,
                                        world := w2\<rparr>)
                              | Seq2SeqLM \<Rightarrow>
                                  Inr (s\<lparr>input_ids := None,
                                        decoder_input_ids := step_ids,
                                        all_decoder_input_ids := all_ids,
                                        past_key_values := past,
                                        encoder_last_hidden_state :=
                                          Some [out_encoder_last_hidden_state out],
                                        unfinished_sequences := unfinished,
                                        new_tokens_count := count,
                                        stop_generation := stop,
                                        token_text := batch_decode tk step_ids,
                                        world := w2\<rparr>))))))"

text \<open>
  The loop: it returns at once when \<^verbatim>\<open>stop_generation\<close> is set, and otherwise
  runs the body and yields. Its value is the list of the states at the
  \<^verbatim>\<open>yield\<close>s, in order, and the exception that ended it, if one did.
\<close>

function gen_loop ::
  "('v, 'w) torch \<Rightarrow> ('v, 'c, 'w) model \<Rightarrow> tokenizer \<Rightarrow> kwargs \<Rightarrow> generic_model_class \<Rightarrow> int
     \<Rightarrow> decoding_method \<Rightarrow> nat \<Rightarrow> ('c, 'w) gen_state
     \<Rightarrow> ('c, 'w) gen_state list \<times> py_error option" where
  "gen_loop T M tk kw cls mx dm n s =
     (if stop_generation s then ([], None)
      else case gen_step T M tk kw cls mx dm n s of
             Inl e \<Rightarrow> ([], Some e)
           | Inr s' \<Rightarrow>
               (case gen_loop T M tk kw cls mx dm n s' of
                  (tr, out) \<Rightarrow> (s' # tr, out)))"
  by pat_completeness auto
termination
  apply (relation "measure (\<lambda>(T, M, tk, kw, cls, mx, dm, n, s).
           if stop_generation s then 0 else 1 + nat (mx - new_tokens_count s))")
   apply simp
  apply (auto simp: gen_step_def Let_def has_met_stopping_criteria_def
              split: prod.splits sum.splits option.splits generic_model_class.splits if_splits)
  done

declare gen_loop.simps [simp del]

text \<open>
  The ids decoded into the text of a yield: \<^verbatim>\<open>input_ids\<close> for a causal model,
  \<^verbatim>\<open>decoder_input_ids\<close> for an encoder-decoder model.
\<close>

definition step_ids :: "generic_model_class \<Rightarrow> ('c, 'w) gen_state \<Rightarrow> int list list" where
  "step_ids cls s =
     (case cls of
        CausalLM \<Rightarrow> (case input_ids s of Some ids \<Rightarrow> ids | None \<Rightarrow> [])
      | Seq2SeqLM \<Rightarrow> decoder_input_ids s)"

text \<open>One pass of the loop leads from state \<open>a\<close> to state \<open>b\<close>.\<close>

definition step_rel ::
  "('v, 'w) torch \<Rightarrow> ('v, 'c, 'w) model \<Rightarrow> tokenizer \<Rightarrow> kwargs \<Rightarrow> generic_model_class \<Rightarrow> int
     \<Rightarrow> decoding_method \<Rightarrow> nat \<Rightarrow> ('c, 'w) gen_state \<Rightarrow> ('c, 'w) gen_state \<Rightarrow> bool" where
  "step_rel T M tk kw cls mx dm n a b =
     (\<not> stop_generation a \<and> gen_step T M tk kw cls mx dm n a = Inr b)"

text \<open>
  What the generator does to the outside, in order: warnings logged, attributes
  of the tokenizer written, the tokenizer called, the model reset or run
  forward, a list of texts yielded.
\<close>

datatype effect =
    Log_warning string
  | Set_pad_token "string option"
  | Set_bos_token_id int
  | Tokenizer_call
  | Reset_generation
  | Forward_call
  | Yield "string list"

definition is_warning :: "effect \<Rightarrow> bool" where
  "is_warning e = (case e of Log_warning msg \<Rightarrow> True | _ \<Rightarrow> False)"

record ('c, 'w) gen_result =
  effects :: "effect list"
  tokenizer_after :: tokenizer
  steps :: "('c, 'w) gen_state list"
  outcome :: "py_error option"

text \<open>
  The state at the first test of the loop. For a causal model the attention
  mask is allocated \<^verbatim>\<open>input_length + max_new_tokens\<close> columns wide (a negative
  width raises) and its first \<^verbatim>\<open>input_length\<close> columns are set to 1, or to
  the tokenizer's mask when the pad token is not the end-of-sequence token
  (which raises when the shapes differ). For an encoder-decoder model the
  decoder starts from one column of \<^verbatim>\<open>bos_token_id\<close>.
\<close>

definition initial_state ::
  "tokenizer \<Rightarrow> generic_model_class \<Rightarrow> int \<Rightarrow> nat \<Rightarrow> int list list \<Rightarrow> int list list \<Rightarrow> 'w
     \<Rightarrow> py_error + ('c, 'w) gen_state" where
  "initial_state tk cls mx n ids tokenized_mask w =
     (case cls of
        CausalLM \<Rightarrow>
          (let input_length = (case ids of [] \<Rightarrow> 0 | row # _ \<Rightarrow> length row);
               width = int input_length + mx
           in if width < 0 then Inl RuntimeError
              else if pad_token tk = eos_token tk then
                Inr \<lparr>input_ids = Some ids, decoder_input_ids = [],
                     all_decoder_input_ids = ids,
                     attention_mask =
                       replicate n (replicate (min input_length (nat width)) 1
                                    @ replicate (nat width - input_length) 0),
                     curr_length = input_length, past_key_values = None,
                     encoder_last_hidden_state = None,
                     unfinished_sequences = replicate n 1, new_tokens_count = 0,
                     stop_generation = False, token_text = [], world = w\<rparr>
              else if length tokenized_mask = n
                      \<and> list_all (\<lambda>row. length row = min input_length (nat width)) tokenized_mask
              then
                Inr \<lparr>input_ids = Some ids, decoder_input_ids = [],
                     all_decoder_input_ids = ids,
                     attention_mask =
                       map (\<lambda>row. row @ replicate (nat width - input_length) 0) tokenized_mask,
                     curr_length = input_length, past_key_values = None,
                     encoder_last_hidden_state = None,
                     unfinished_sequences = replicate n 1, new_tokens_count = 0,
                     stop_generation = False, token_text = [], world = w\<rparr>
              else Inl RuntimeError)
      | Seq2SeqLM \<Rightarrow>
          (case bos_token_id tk of
             None \<Rightarrow> Inl RuntimeError
           | Some bos \<Rightarrow>
               Inr \<lparr>input_ids = Some ids, decoder_input_ids = replicate n [bos],
                    all_decoder_input_ids = replicate n [bos],
                    attention_mask = tokenized_mask,
                    curr_length = 0, past_key_values = None,
                    encoder_last_hidden_state = None,
                    unfinished_sequences = replicate n 1, new_tokens_count = 0,
                    stop_generation = False, token_text = [], world = w\<rparr>))"

definition loop_effects :: "('c, 'w) gen_state list \<Rightarrow> py_error option \<Rightarrow> effect list" where
  "loop_effects tr out =
     concat (map (\<lambda>s. [Forward_call, Yield (token_text s)]) tr)
     @ (case out of None \<Rightarrow> [] | Some e \<Rightarrow> [Forward_call])"

definition failed :: "effect list \<Rightarrow> tokenizer \<Rightarrow> py_error \<Rightarrow> ('c, 'w) gen_result" where
  "failed effs tk e = \<lparr>effects = effs, tokenizer_after = tk, steps = [], outcome = Some e\<rparr>"

text \<open>
  The statements of the generator before its loop that write the tokenizer:
  \<^verbatim>\<open>if not tokenizer.pad_token: tokenizer.pad_token = tokenizer.eos_token\<close>
  (also the first statement of \<^verbatim>\<open>use_hf_default_streamer\<close>) and, for an
  encoder-decoder model,
  \<^verbatim>\<open>tokenizer.bos_token_id = model.config.decoder_start_token_id\<close>; and the
  effects they are.
\<close>

definition ensure_pad_token :: "tokenizer \<Rightarrow> tokenizer" where
  "ensure_pad_token tk =
     (if falsy_token (pad_token tk) then tk\<lparr>pad_token := eos_token tk\<rparr> else tk)"

definition set_bos_token :: "generic_model_class \<Rightarrow> model_config \<Rightarrow> tokenizer \<Rightarrow> tokenizer" where
  "set_bos_token cls cfg tk =
     (case cls of
        Seq2SeqLM \<Rightarrow> tk\<lparr>bos_token_id := Some (decoder_start_token_id cfg)\<rparr>
      | CausalLM \<Rightarrow> tk)"

definition tokenizer_writes :: "generic_model_class \<Rightarrow> model_config \<Rightarrow> tokenizer \<Rightarrow> effect list" where
  "tokenizer_writes cls cfg tk =
     (if falsy_token (pad_token tk) then [Set_pad_token (eos_token tk)] else [])
     @ (case cls of
          Seq2SeqLM \<Rightarrow> [Set_bos_token_id (decoder_start_token_id cfg)]
        | CausalLM \<Rightarrow> [])"

text \<open>
  \<^verbatim>\<open>kwargs.get("max_new_tokens", StreamingUtils.DEFAULT_MAX_NEW_TOKENS)\<close>.
\<close>

definition get_max_new_tokens :: "kwargs \<Rightarrow> int" where
  "get_max_new_tokens kw =
     (case max_new_tokens kw of Some m \<Rightarrow> m | None \<Rightarrow> DEFAULT_MAX_NEW_TOKENS)"

text \<open>
  \<^verbatim>\<open>if "transformers-neuronx" == engine: model.reset_generation()\<close>, and the
  effect it is.
\<close>

definition reset_if_neuronx :: "('v, 'c, 'w) model \<Rightarrow> kwargs \<Rightarrow> 'w \<Rightarrow> 'w" where
  "reset_if_neuronx M kw w =
     (if engine kw = Some ''transformers-neuronx'' then reset_generation M w else w)"

definition reset_effect :: "kwargs \<Rightarrow> effect list" where
  "reset_effect kw =
     (if engine kw = Some ''transformers-neuronx'' then [Reset_generation] else [])"

text \<open>
  \<^verbatim>\<open>_hf_model_stream_generator(model, tokenizer, inputs, device, **kwargs)\<close>,
  run until it returns or raises. Moving a tensor to \<^verbatim>\<open>device\<close> does not change
  its value, so the device is not a parameter. \<^verbatim>\<open>len(inputs)\<close> is read after
  validation, when \<open>inputs\<close> is a list.
\<close>

definition hf_model_stream_generator ::
  "('v, 'w) torch \<Rightarrow> ('v, 'c, 'w) model \<Rightarrow> tokenizer \<Rightarrow> py_inputs \<Rightarrow> kwargs \<Rightarrow> 'w
     \<Rightarrow> ('c, 'w) gen_result" where
  "hf_model_stream_generator T M tk inputs kw w =
     (case validate_inputs (config M) inputs of
        (warn1, Inl e) \<Rightarrow> failed (map Log_warning warn1) tk e
      | (warn1, Inr u) \<Rightarrow>
         (case get_generic_model_class (config M) of
            (warn2, cls) \<Rightarrow>
              (let tk2 = set_bos_token cls (config M) (ensure_pad_token tk);
                   mx = get_max_new_tokens kw;
                   strs = (case inputs of Inputs_list l \<Rightarrow> l | _ \<Rightarrow> []);
                   effs2 = map Log_warning (warn1 @ warn2)
                           @ tokenizer_writes cls (config M) tk @ [Tokenizer_call]
               in case tokenizer_call tk2 (pad_token tk2) strs of
                    Inl e \<Rightarrow> failed effs2 tk2 e
                  | Inr (ids, tokenized_mask) \<Rightarrow>
                     (case get_decoding_method kw of
                        Inl e \<Rightarrow> failed effs2 tk2 e
                      | Inr dm \<Rightarrow>
                         (case initial_state tk2 cls mx (length strs) ids tokenized_mask
                                 (reset_if_neuronx M kw w) of
                            Inl e \<Rightarrow> failed (effs2 @ reset_effect kw) tk2 e
                          | Inr s0 \<Rightarrow>
                             (case gen_loop T M tk2 kw cls mx dm (length strs) s0 of
                                (tr, out) \<Rightarrow>
                                  \<lparr>effects = effs2 @ reset_effect kw @ loop_effects tr out,
                                   tokenizer_after = tk2, steps = tr,
                                   outcome = out\<rparr>))))))"

text \<open>What a consumer of the generator receives: the yielded lists of texts.\<close>

definition yields :: "('c, 'w) gen_result \<Rightarrow> string list list" where
  "yields r = map token_text (steps r)"

subsection \<open>The streamer of decoded text\<close>

text \<open>
  \<^verbatim>\<open>HFStreamer\<close> holds its tokenizer and a \<^verbatim>\<open>queue.Queue\<close>: unbounded, first
  in first out. An item is a list of decoded texts (from \<^verbatim>\<open>put\<close>), a text
  (from \<^verbatim>\<open>put_text\<close>) or the stop signal, which is \<^verbatim>\<open>None\<close>; a list or a
  string never compares equal to \<^verbatim>\<open>None\<close>. The queue is the list of the items
  not yet taken, oldest first.
\<close>

datatype chunk = Decoded "string list" | Text string

record hfstreamer =
  started :: bool
  streamer_tokenizer :: tokenizer
  queue :: "chunk option list"

definition stop_signal :: "chunk option" where
  "stop_signal = None"

definition new_streamer :: "tokenizer \<Rightarrow> hfstreamer" where
  "new_streamer tk = \<lparr>started = False, streamer_tokenizer = tk, queue = []\<rparr>"

definition put :: "hfstreamer \<Rightarrow> int list list \<Rightarrow> hfstreamer" where
  "put st v =
     st\<lparr>started := True,
        queue := queue st @ [Some (Decoded (batch_decode (streamer_tokenizer st) v))]\<rparr>"

definition put_text :: "hfstreamer \<Rightarrow> string \<Rightarrow> hfstreamer" where
  "put_text st v = st\<lparr>queue := queue st @ [Some (Text v)]\<rparr>"

definition end_stream :: "hfstreamer \<Rightarrow> hfstreamer" where
  "end_stream st = st\<lparr>queue := queue st @ [stop_signal]\<rparr>"

text \<open>
  \<^verbatim>\<open>__next__\<close> takes the oldest item. On an empty queue \<^verbatim>\<open>queue.get()\<close> blocks
  until the producer puts an item: that is the result \<open>Blocked\<close>, with the
  streamer unchanged.
\<close>

datatype next_result = Returned chunk | StopIteration | Blocked

definition next_chunk :: "hfstreamer \<Rightarrow> next_result \<times> hfstreamer" where
  "next_chunk st =
     (case queue st of
        [] \<Rightarrow> (Blocked, st)
      | v # rest \<Rightarrow>
          (if v = stop_signal then (StopIteration, st\<lparr>queue := rest\<rparr>)
           else (case v of
                   Some c \<Rightarrow> (Returned c, st\<lparr>queue := rest\<rparr>)
                 | None \<Rightarrow> (StopIteration, st\<lparr>queue := rest\<rparr>))))"

text \<open>
  Iterating the streamer (a \<^verbatim>\<open>for\<close> loop over it) calls \<^verbatim>\<open>__next__\<close> until
  it raises \<^verbatim>\<open>StopIteration\<close>: the values returned, whether the iteration
  stopped or is left waiting on an empty queue, and the streamer afterwards.
\<close>

function iterate :: "hfstreamer \<Rightarrow> chunk list \<times> next_result \<times> hfstreamer" where
  "iterate st =
     (case next_chunk st of
        (Returned c, st') \<Rightarrow> (case iterate st' of (cs, r, st'') \<Rightarrow> (c # cs, r, st''))
      | (StopIteration, st') \<Rightarrow> ([], StopIteration, st')
      | (Blocked, st') \<Rightarrow> ([], Blocked, st'))"
  by pat_completeness auto
termination
  apply (relation "measure (\<lambda>st. length (queue st))")
   apply simp
  apply (auto simp: next_chunk_def split: list.splits if_splits option.splits)
  done

declare iterate.simps [simp del]

text \<open>
  \<^verbatim>\<open>model.generate(**kwargs)\<close> is not code of this module. What it does to the
  streamer is a sequence of calls of \<^verbatim>\<open>put\<close> and \<^verbatim>\<open>end\<close>, after which it
  returns, raises an \<^verbatim>\<open>Exception\<close> with some text (its own, or one that a
  call of \<^verbatim>\<open>put\<close> raised in the tokenizer), or raises an exception that is
  not an \<^verbatim>\<open>Exception\<close>, which \<^verbatim>\<open>except Exception\<close> does not catch.
\<close>

datatype streamer_call = Put "int list list" | End

datatype generate_outcome = Returns | Raises_exception string | Raises_base_exception

fun do_calls :: "hfstreamer \<Rightarrow> streamer_call list \<Rightarrow> hfstreamer" where
  "do_calls st [] = st"
| "do_calls st (Put v # cs) = do_calls (put st v) cs"
| "do_calls st (End # cs) = do_calls (end_stream st) cs"

text \<open>
  \<^verbatim>\<open>run_generation\<close>, the target of the background thread:
  \<^verbatim>\<open>try: model.generate(**kwargs)\<close>, \<^verbatim>\<open>except Exception as e: streamer.put_text(str(e))\<close>,
  \<^verbatim>\<open>finally: streamer.end()\<close>.
\<close>

definition run_generation ::
  "streamer_call list \<Rightarrow> generate_outcome \<Rightarrow> hfstreamer \<Rightarrow> hfstreamer" where
  "run_generation calls res st =
     (let st1 = do_calls st calls;
          st2 = (case res of
                   Returns \<Rightarrow> st1
                 | Raises_exception msg \<Rightarrow> put_text st1 msg
                 | Raises_base_exception \<Rightarrow> st1)
      in end_stream st2)"

text \<open>
  \<^verbatim>\<open>use_hf_default_streamer\<close> gives the tokenizer a pad token when it has
  none, tokenizes the inputs (which may raise), creates the streamer, starts
  the thread that runs \<^verbatim>\<open>run_generation\<close> and returns the streamer.
\<close>

definition use_hf_default_streamer :: "tokenizer \<Rightarrow> string list \<Rightarrow> py_error + hfstreamer" where
  "use_hf_default_streamer tk inputs =
     (let tk1 = ensure_pad_token tk
      in case tokenizer_call tk1 (pad_token tk1) inputs of
           Inl e \<Rightarrow> Inl e
         | Inr input_tokens \<Rightarrow> Inr (new_streamer tk1))"

text \<open>
  The thread and the consumer run side by side. A system state holds the
  streamer, the items the thread has still to put (in order), the chunks the
  consumer has received, and whether its iteration has stopped. A schedule
  says who moves next: the thread puts its next item, or the consumer calls
  \<^verbatim>\<open>__next__\<close> (and waits when the queue is empty).
\<close>

record stream_system =
  streamer :: hfstreamer
  to_put :: "chunk option list"
  received :: "chunk list"
  stopped :: bool

datatype mover = Thread | Consumer

definition sys_step :: "mover \<Rightarrow> stream_system \<Rightarrow> stream_system" where
  "sys_step m sys =
     (case m of
        Thread \<Rightarrow>
          (case to_put sys of
             [] \<Rightarrow> sys
           | v # rest \<Rightarrow>
               sys\<lparr>streamer := (streamer sys)\<lparr>queue := queue (streamer sys) @ [v]\<rparr>,
                   to_put := rest\<rparr>)
      | Consumer \<Rightarrow>
          (if stopped sys then sys
           else case next_chunk (streamer sys) of
                  (Returned c, st') \<Rightarrow> sys\<lparr>streamer := st', received := received sys @ [c]\<rparr>
                | (StopIteration, st') \<Rightarrow> sys\<lparr>streamer := st', stopped := True\<rparr>
                | (Blocked, st') \<Rightarrow> sys))"

definition run_schedule :: "mover list \<Rightarrow> stream_system \<Rightarrow> stream_system" where
  "run_schedule sched sys = fold sys_step sched sys"

text \<open>
  The system when \<^verbatim>\<open>use_hf_default_streamer\<close> returns streamer \<open>st\<close>: nothing
  received, and the thread about to put the items of \<^verbatim>\<open>run_generation\<close>.
\<close>

definition start_system :: "streamer_call list \<Rightarrow> generate_outcome \<Rightarrow> hfstreamer \<Rightarrow> stream_system" where
  "start_system calls res st =
     \<lparr>streamer = st,
      to_put = drop (length (queue st)) (queue (run_generation calls res st)),
      received = [], stopped = False\<rparr>"

text \<open>The chunks of a sequence of items before its first stop signal.\<close>

definition chunks_before_stop :: "chunk option list \<Rightarrow> chunk list" where
  "chunks_before_stop items = map the (takeWhile (\<lambda>v. v \<noteq> stop_signal) items)"

text \<open>
  What ties a state of the system to the sequence of items the thread puts in
  all: while the consumer has not stopped, the chunks it received, the queue
  and the items still to put make up that sequence, in this order; once it has
  stopped, it has received the chunks before the first stop signal.
\<close>

definition sys_inv :: "chunk option list \<Rightarrow> stream_system \<Rightarrow> bool" where
  "sys_inv items sys =
     (if stopped sys then received sys = chunks_before_stop items
      else map Some (received sys) @ queue (streamer sys) @ to_put sys = items)"

subsection \<open>Small instances for concrete runs\<close>

text \<open>
  A sampler over lists of real scores. The global generator is the list of the
  uniform numbers in \<open>[0, 1)\<close> it is going to produce; a draw takes the first
  and picks the index where the running sum of the probabilities passes it.
\<close>

fun inverse_cdf :: "real list \<Rightarrow> real \<Rightarrow> int" where
  "inverse_cdf [] u = 0"
| "inverse_cdf (p # ps) u = (if u < p then 0 else 1 + inverse_cdf ps (u - p))"

fun argmax_list :: "real list \<Rightarrow> int" where
  "argmax_list [] = 0"
| "argmax_list [x] = 0"
| "argmax_list (x # y # ys) =
     (if list_all (\<lambda>z. z \<le> x) (y # ys) then 0 else 1 + argmax_list (y # ys))"

definition tape_torch :: "(real list, real list) torch" where
  "tape_torch =
     \<lparr>processor_call = (\<lambda>p ids sc. case p of
                           TemperatureLogitsWarper t \<Rightarrow> map (\<lambda>x. x / t) sc
                         | _ \<Rightarrow> sc),
      argmax = argmax_list,
      softmax = (\<lambda>sc. map (\<lambda>x. exp x / sum_list (map exp sc)) sc),
      multinomial = (\<lambda>probs w. case w of
                        [] \<Rightarrow> (inverse_cdf probs 0, [])
                      | u # w' \<Rightarrow> (inverse_cdf probs u, w')),
      multinomial_seeded = (\<lambda>probs seed. inverse_cdf probs (real_of_int (seed mod 100) / 100))\<rparr>"

text \<open>
  A model that plays a script. The score of a row is the token the row gets
  (\<open>argmax\<close> is the identity); the ambient state counts the forward calls, and
  call \<open>k\<close> returns the tokens of entry \<open>k\<close> of the script, one per row.
\<close>

definition echo_torch :: "(int, nat) torch" where
  "echo_torch =
     \<lparr>processor_call = (\<lambda>p ids sc. sc), argmax = (\<lambda>sc. sc), softmax = (\<lambda>sc. sc),
      multinomial = (\<lambda>sc w. (sc, w)), multinomial_seeded = (\<lambda>sc seed. sc)\<rparr>"

definition script_model :: "string list option \<Rightarrow> int list list \<Rightarrow> (int, unit, nat) model" where
  "script_model archs script =
     \<lparr>config = \<lparr>architectures = archs, decoder_start_token_id = 0\<rparr>,
      forward = (\<lambda>call k.
        if k < length script
        then (Inr \<lparr>logits = map (\<lambda>t. [t]) (script ! k), out_past_key_values = (),
                  out_encoder_last_hidden_state = ()\<rparr>, Suc k)
        else (Inl (BackendError ''script exhausted''), Suc k)),
      reset_generation = (\<lambda>k. k)\<rparr>"

text \<open>
  A tokenizer with no pad token, whose end-of-sequence token has id 2: a
  string is encoded as one token, its length.
\<close>

definition plain_tokenizer :: tokenizer where
  "plain_tokenizer =
     \<lparr>pad_token = None, eos_token = Some ''</s>'', bos_token_id = None,
      convert_tokens_to_ids = (\<lambda>t. if t = ''</s>'' then 2 else 0),
      tokenizer_call = (\<lambda>pad strs. Inr (map (\<lambda>s. [int (length s)]) strs, map (\<lambda>s. [1]) strs)),
      decode = (\<lambda>ids. if ids = [2] then ''</s>'' else ''tok'')\<rparr>"

section \<open>Properties\<close>

subsection \<open>Decoding-method selection\<close>

text \<open>
  C1. For every keyword-argument map: when \<open>beam_size\<close> is present and greater
  than 1 the selection raises (the request is rejected as unsupported);
  otherwise, when one of \<open>temperature\<close>, \<open>top_p\<close>, \<open>top_k\<close>, \<open>typical_p\<close> is
  present or \<open>do_sample\<close> is true, the sampling decoder is selected; otherwise
  the greedy decoder is selected.
\<close>

theorem get_decoding_method_rule:
  "((\<exists>b. beam_size kw = Some b \<and> b > 1) \<longrightarrow>
      (\<exists>msg. get_decoding_method kw = Inl (NotImplementedError msg)))
   \<and> (\<not> (\<exists>b. beam_size kw = Some b \<and> b > 1) \<longrightarrow>
        (temperature kw \<noteq> None \<or> top_p kw \<noteq> None \<or> top_k kw \<noteq> None
           \<or> typical_p kw \<noteq> None \<or> do_sample kw = Some True \<longrightarrow>
         get_decoding_method kw = Inr Sampling_decoding)
      \<and> (\<not> (temperature kw \<noteq> None \<or> top_p kw \<noteq> None \<or> top_k kw \<noteq> None
           \<or> typical_p kw \<noteq> None \<or> do_sample kw = Some True) \<longrightarrow>
         get_decoding_method kw = Inr Greedy_decoding))"
  by (auto simp: get_decoding_method_def split: option.splits)

theorem get_decoding_method_rule_witness:
  "(\<exists>msg. get_decoding_method (no_kwargs\<lparr>beam_size := Some 2, top_k := Some 5\<rparr>)
             = Inl (NotImplementedError msg))
   \<and> get_decoding_method (no_kwargs\<lparr>beam_size := Some 1, top_k := Some 5\<rparr>) = Inr Sampling_decoding
   \<and> get_decoding_method (no_kwargs\<lparr>do_sample := Some True\<rparr>) = Inr Sampling_decoding
   \<and> get_decoding_method (no_kwargs\<lparr>do_sample := Some False, repetition_penalty := Some 2\<rparr>)
       = Inr Greedy_decoding"
  using get_decoding_method_rule [of "no_kwargs\<lparr>beam_size := Some 2, top_k := Some 5\<rparr>"]
        get_decoding_method_rule [of "no_kwargs\<lparr>beam_size := Some 1, top_k := Some 5\<rparr>"]
        get_decoding_method_rule [of "no_kwargs\<lparr>do_sample := Some True\<rparr>"]
        get_decoding_method_rule
          [of "no_kwargs\<lparr>do_sample := Some False, repetition_penalty := Some 2\<rparr>"]
  by (simp add: no_kwargs_def)

subsection \<open>Selection of the stream generator\<close>

text \<open>
  C7. \<open>get_stream_generator\<close> returns a stream generator if and only if the
  engine name is one of \<open>DeepSpeed\<close>, \<open>Accelerate\<close> and \<open>transformers-neuronx\<close>;
  for every other name it raises, so no other name is accepted.
\<close>

theorem get_stream_generator_builtin_only:
  "((\<exists>g. get_stream_generator execution_engine = Inr g) \<longleftrightarrow>
      execution_engine = ''DeepSpeed'' \<or> execution_engine = ''Accelerate''
        \<or> execution_engine = ''transformers-neuronx'')
   \<and> ((\<exists>e. get_stream_generator execution_engine = Inl e) \<longleftrightarrow>
      \<not> (execution_engine = ''DeepSpeed'' \<or> execution_engine = ''Accelerate''
        \<or> execution_engine = ''transformers-neuronx''))"
  by (auto simp: get_stream_generator_def BUILTIN_ENGINES_def)

theorem get_stream_generator_builtin_only_witness:
  "(\<exists>g. get_stream_generator ''Accelerate'' = Inr g)
   \<and> (\<exists>e. get_stream_generator ''accelerate'' = Inl e)
   \<and> (\<exists>e. get_stream_generator ''Python'' = Inl e)"
  using get_stream_generator_builtin_only [of "''Accelerate''"]
        get_stream_generator_builtin_only [of "''accelerate''"]
        get_stream_generator_builtin_only [of "''Python''"]
  by simp

subsection \<open>Sampling\<close>







lemma sampling_decoding_manual_seed_unused:
  "sampling_decoding T lg ids (kw\<lparr>manual_seed := sd\<rparr>) w = sampling_decoding T lg ids kw w"
  by (cases lg) (simp_all add: sampling_decoding_def sampling_processors_def Let_def)

text \<open>
  C4. Two calls of \<open>sampling_decoding\<close> with the same \<open>manual_seed\<close> and the
  same other arguments should return the same token whatever the global random
  state. They do not: the seeded draw is thrown away and the token returned is
  drawn from the global generator. On two scores of equal weight, with seed 0,
  a global generator about to produce \<open>1/4\<close> gives token 0 and one about to
  produce \<open>3/4\<close> gives token 1.
\<close>

theorem sampling_decoding_seed_does_not_fix_token:
  "fst (sampling_decoding tape_torch [[0, 0]] [7] (no_kwargs\<lparr>manual_seed := Some 0\<rparr>) [1 / 4])
     = Inr 0
   \<and> fst (sampling_decoding tape_torch [[0, 0]] [7] (no_kwargs\<lparr>manual_seed := Some 0\<rparr>) [3 / 4])
     = Inr 1"
  by (simp add: sampling_decoding_def tape_torch_def no_kwargs_def sampling_processors_def
        LogitsProcessorList_call_def Let_def)

subsection \<open>Input validation\<close>

lemma validate_inputs_bad_shape:
  "(\<forall>l. inputs \<noteq> Inputs_list l) \<or> inputs = Inputs_list [] \<Longrightarrow>
     \<exists>msg. snd (validate_inputs cfg inputs) = Inl (AssertionError msg)"
  by (cases inputs) (auto simp: validate_inputs_def Let_def)

lemma generator_validation_error:
  "snd (validate_inputs (config M) inputs) = Inl e \<Longrightarrow>
   hf_model_stream_generator T M tk inputs kw w =
     \<lparr>effects = map Log_warning (fst (validate_inputs (config M) inputs)),
      tokenizer_after = tk, steps = [], outcome = Some e\<rparr>"
  by (cases "validate_inputs (config M) inputs")
     (simp add: hf_model_stream_generator_def failed_def)

lemma generator_effects_prefix:
  "prefix (map Log_warning (fst (validate_inputs (config M) inputs)))
      (effects (hf_model_stream_generator T M tk inputs kw w))"
  by (auto simp: hf_model_stream_generator_def failed_def Let_def
        split: prod.splits sum.splits)

lemma generator_continues:
  "snd (validate_inputs (config M) inputs) = Inr () \<Longrightarrow>
   Tokenizer_call \<in> set (effects (hf_model_stream_generator T M tk inputs kw w))
   \<and> (\<forall>msg \<in> set (fst (get_generic_model_class (config M))).
          Log_warning msg \<in> set (effects (hf_model_stream_generator T M tk inputs kw w)))"
  by (auto simp: hf_model_stream_generator_def failed_def Let_def
        split: prod.splits sum.splits)

lemma arch_missing:
  "arch_list cfg = [] \<Longrightarrow>
     fst (validate_inputs cfg inputs) \<noteq> []
     \<and> get_generic_model_class cfg =
         ([''Model config does not contain architectures field. Assuming it is CausalLM type''],
          CausalLM)
     \<and> (\<forall>l. inputs = Inputs_list l \<and> l \<noteq> [] \<longrightarrow> snd (validate_inputs cfg inputs) = Inr ())"
  by (auto simp: validate_inputs_def get_generic_model_class_def Let_def Suc_le_eq)

lemma arch_unrecognized:
  "arch_list cfg \<noteq> [] \<Longrightarrow>
   \<not> list_ex (endswith_any SUPPORTED_MODEL_ARCH_SUFFIXES) (arch_list cfg) \<Longrightarrow>
     validate_inputs cfg inputs =
       ([], Inl (AssertionError ''model archs is not in supported list''))"
  by (simp add: validate_inputs_def Let_def)

lemmas arch_simps =
  arch_list_def endswith_any_def endswith_def SUPPORTED_MODEL_ARCH_SUFFIXES_def
  SUPPORTED_MODEL_ARCH_SUFFIXES_CAUSAL_LM_def SUPPORTED_MODEL_ARCH_SUFFIXES_SEQ_2_SEQ_LM_def

text \<open>
  C5. An \<open>inputs\<close> value that is not a list, and an empty list, are rejected by
  validation with an error, and the stream generator then raises that error
  having done nothing but log the warnings of validation: no tokenizer
  attribute written, no tokenizer call, no forward call, nothing yielded.
  Whatever error validation raises, that is the whole run; and in every run the
  warnings of validation are the first effects.
\<close>

theorem validation_rejects_before_anything_else:
  "(((\<forall>l. inputs \<noteq> Inputs_list l) \<or> inputs = Inputs_list []) \<longrightarrow>
      (\<exists>msg. snd (validate_inputs (config M) inputs) = Inl (AssertionError msg)
         \<and> outcome (hf_model_stream_generator T M tk inputs kw w) = Some (AssertionError msg))
      \<and> list_all is_warning (effects (hf_model_stream_generator T M tk inputs kw w))
      \<and> tokenizer_after (hf_model_stream_generator T M tk inputs kw w) = tk
      \<and> steps (hf_model_stream_generator T M tk inputs kw w) = [])
   \<and> (\<forall>e. snd (validate_inputs (config M) inputs) = Inl e \<longrightarrow>
        hf_model_stream_generator T M tk inputs kw w =
          \<lparr>effects = map Log_warning (fst (validate_inputs (config M) inputs)),
           tokenizer_after = tk, steps = [], outcome = Some e\<rparr>)
   \<and> prefix (map Log_warning (fst (validate_inputs (config M) inputs)))
        (effects (hf_model_stream_generator T M tk inputs kw w))"
  using validate_inputs_bad_shape [of inputs "config M"]
        generator_validation_error [of M inputs _ T tk kw w]
        generator_effects_prefix [of M inputs T tk kw w]
  by (auto simp: list_all_iff is_warning_def)

theorem validation_rejects_before_anything_else_witness:
  "(\<exists>msg. snd (validate_inputs (config (script_model None [[5]])) (Inputs_str ''hello''))
            = Inl (AssertionError msg)
        \<and> outcome (hf_model_stream_generator echo_torch (script_model None [[5]])
                     plain_tokenizer (Inputs_str ''hello'') no_kwargs 0)
            = Some (AssertionError msg))
   \<and> list_all is_warning
        (effects (hf_model_stream_generator echo_torch (script_model None [[5]])
                    plain_tokenizer (Inputs_str ''hello'') no_kwargs 0))
   \<and> tokenizer_after (hf_model_stream_generator echo_torch (script_model None [[5]])
                         plain_tokenizer (Inputs_str ''hello'') no_kwargs 0) = plain_tokenizer
   \<and> steps (hf_model_stream_generator echo_torch (script_model None [[5]])
               plain_tokenizer (Inputs_str ''hello'') no_kwargs 0) = []
   \<and> (\<exists>msg. outcome (hf_model_stream_generator echo_torch (script_model None [[5]])
                 plain_tokenizer (Inputs_list []) no_kwargs 0)
       = Some (AssertionError msg))"
proof -
  have h1: "(\<forall>l. Inputs_str ''hello'' \<noteq> Inputs_list l) \<or> Inputs_str ''hello'' = Inputs_list []"
    by simp
  have h2: "(\<forall>l. Inputs_list ([] :: string list) \<noteq> Inputs_list l) \<or> Inputs_list [] = Inputs_list ([] :: string list)"
    by simp
  show ?thesis
    using h1 h2
      validation_rejects_before_anything_else
          [of "Inputs_str ''hello''" "script_model None [[5]]" echo_torch plain_tokenizer
              no_kwargs 0]
        validation_rejects_before_anything_else
          [of "Inputs_list []" "script_model None [[5]]" echo_torch plain_tokenizer no_kwargs 0]
    by blast
qed

text \<open>
  C3 as stated fails: a non-empty \<open>architectures\<close> list with no recognized
  suffix makes validation raise, with no warning, and the generator raises
  with it.
\<close>

theorem unrecognized_architecture_is_fatal:
  "arch_list (config (script_model (Some [''BertModel'']) [[5]])) = [''BertModel'']
   \<and> \<not> list_ex (endswith_any SUPPORTED_MODEL_ARCH_SUFFIXES) [''BertModel'']
   \<and> validate_inputs (config (script_model (Some [''BertModel'']) [[5]])) (Inputs_list [''hello''])
       = ([], Inl (AssertionError ''model archs is not in supported list''))
   \<and> hf_model_stream_generator echo_torch (script_model (Some [''BertModel'']) [[5]])
        plain_tokenizer (Inputs_list [''hello'']) no_kwargs 0
       = \<lparr>effects = [], tokenizer_after = plain_tokenizer, steps = [],
          outcome = Some (AssertionError ''model archs is not in supported list'')\<rparr>"
  by (simp add: hf_model_stream_generator_def failed_def validate_inputs_def script_model_def
        arch_simps)

text \<open>
  C3, amended. When the configuration has no architectures (none, or an empty
  list), validation logs a warning, the generic model class is \<open>CausalLM\<close>
  with a warning, and on a non-empty list of inputs validation passes and the
  generator goes on to call the tokenizer. When the list of architectures is
  non-empty and none of its names ends with a supported suffix, validation
  raises an assertion error without a warning and the generator raises with it.
\<close>

theorem missing_architectures_warn_unrecognized_fail:
  "(arch_list (config M) = [] \<longrightarrow>
      fst (validate_inputs (config M) inputs) \<noteq> []
      \<and> get_generic_model_class (config M) =
          ([''Model config does not contain architectures field. Assuming it is CausalLM type''],
           CausalLM)
      \<and> (\<forall>l. inputs = Inputs_list l \<and> l \<noteq> [] \<longrightarrow>
            snd (validate_inputs (config M) inputs) = Inr ()
            \<and> Tokenizer_call \<in> set (effects (hf_model_stream_generator T M tk inputs kw w))
            \<and> Log_warning
                 ''Model config does not contain architectures field. Assuming it is CausalLM type''
               \<in> set (effects (hf_model_stream_generator T M tk inputs kw w))))
   \<and> (arch_list (config M) \<noteq> []
        \<and> \<not> list_ex (endswith_any SUPPORTED_MODEL_ARCH_SUFFIXES) (arch_list (config M)) \<longrightarrow>
      validate_inputs (config M) inputs =
        ([], Inl (AssertionError ''model archs is not in supported list''))
      \<and> hf_model_stream_generator T M tk inputs kw w =
          \<lparr>effects = [], tokenizer_after = tk, steps = [],
           outcome = Some (AssertionError ''model archs is not in supported list'')\<rparr>)"
proof (intro conjI impI)
  assume a: "arch_list (config M) = []"
  show "fst (validate_inputs (config M) inputs) \<noteq> []"
    using arch_missing [OF a] by simp
  show g: "get_generic_model_class (config M) =
      ([''Model config does not contain architectures field. Assuming it is CausalLM type''],
       CausalLM)"
    using arch_missing [OF a] by simp
  show "\<forall>l. inputs = Inputs_list l \<and> l \<noteq> [] \<longrightarrow>
            snd (validate_inputs (config M) inputs) = Inr ()
            \<and> Tokenizer_call \<in> set (effects (hf_model_stream_generator T M tk inputs kw w))
            \<and> Log_warning
                 ''Model config does not contain architectures field. Assuming it is CausalLM type''
               \<in> set (effects (hf_model_stream_generator T M tk inputs kw w))"
  proof (intro allI impI)
    fix l assume i: "inputs = Inputs_list l \<and> l \<noteq> []"
    have v: "snd (validate_inputs (config M) inputs) = Inr ()"
      using arch_missing [OF a, of inputs] i by blast
    show "snd (validate_inputs (config M) inputs) = Inr ()
            \<and> Tokenizer_call \<in> set (effects (hf_model_stream_generator T M tk inputs kw w))
            \<and> Log_warning
                 ''Model config does not contain architectures field. Assuming it is CausalLM type''
               \<in> set (effects (hf_model_stream_generator T M tk inputs kw w))"
      using v generator_continues [OF v, of T tk kw w] g by simp
  qed
next
  assume u: "arch_list (config M) \<noteq> []
        \<and> \<not> list_ex (endswith_any SUPPORTED_MODEL_ARCH_SUFFIXES) (arch_list (config M))"
  show v: "validate_inputs (config M) inputs =
        ([], Inl (AssertionError ''model archs is not in supported list''))"
    using u arch_unrecognized by blast
  show "hf_model_stream_generator T M tk inputs kw w =
          \<lparr>effects = [], tokenizer_after = tk, steps = [],
           outcome = Some (AssertionError ''model archs is not in supported list'')\<rparr>"
    using generator_validation_error [of M inputs _ T tk kw w] v by simp
qed

theorem missing_architectures_warn_unrecognized_fail_witness:
  "fst (validate_inputs (config (script_model None [[5]])) (Inputs_list [''hello''])) \<noteq> []
   \<and> get_generic_model_class (config (script_model None [[5]])) =
       ([''Model config does not contain architectures field. Assuming it is CausalLM type''],
        CausalLM)
   \<and> Tokenizer_call \<in> set (effects (hf_model_stream_generator echo_torch
        (script_model None [[5]]) plain_tokenizer (Inputs_list [''hello'']) no_kwargs 0))
   \<and> outcome (hf_model_stream_generator echo_torch (script_model (Some [''BertModel'']) [[5]])
        plain_tokenizer (Inputs_list [''hello'']) no_kwargs 0)
       = Some (AssertionError ''model archs is not in supported list'')"
  using missing_architectures_warn_unrecognized_fail
          [of "script_model None [[5]]" "Inputs_list [''hello'']" echo_torch plain_tokenizer
              no_kwargs 0]
        missing_architectures_warn_unrecognized_fail
          [of "script_model (Some [''BertModel'']) [[5]]" "Inputs_list [''hello'']" echo_torch
              plain_tokenizer no_kwargs 0]
  by (simp add: script_model_def arch_simps)

subsection \<open>The streamer\<close>



lemma do_calls_queue: "\<exists>items. queue (do_calls st calls) = queue st @ items"
proof (induction calls arbitrary: st)
  case Nil
  then show ?case by simp
next
  case (Cons c calls)
  show ?case
  proof (cases c)
    case (Put v)
    from Cons.IH [of "put st v"] show ?thesis
      by (auto simp: Put put_def)
  next
    case End
    from Cons.IH [of "end_stream st"] show ?thesis
      by (auto simp: End end_stream_def)
  qed
qed

lemma run_generation_queue:
  "\<exists>pre. queue (run_generation calls res st) = queue st @ pre @ [stop_signal]
     \<and> (\<forall>msg. res = Raises_exception msg \<longrightarrow> (\<exists>pre'. pre = pre' @ [Some (Text msg)]))"
proof -
  obtain items where i: "queue (do_calls st calls) = queue st @ items"
    using do_calls_queue by blast
  show ?thesis
    by (cases res) (auto simp: run_generation_def Let_def end_stream_def put_text_def i)
qed

lemma iterate_stop:
  "stop_signal \<in> set (queue st) \<Longrightarrow>
   iterate st = (chunks_before_stop (queue st), StopIteration,
                 st\<lparr>queue := tl (dropWhile (\<lambda>v. v \<noteq> stop_signal) (queue st))\<rparr>)"
proof (induction "queue st" arbitrary: st)
  case Nil
  then show ?case by simp
next
  case (Cons v rest)
  note c = Cons.hyps(2) [symmetric]
  show ?case
  proof (cases v)
    case None
    then show ?thesis
      by (subst iterate.simps) (simp add: next_chunk_def c stop_signal_def chunks_before_stop_def)
  next
    case (Some ch)
    have q: "rest = queue (st\<lparr>queue := rest\<rparr>)" by simp
    have m: "stop_signal \<in> set (queue (st\<lparr>queue := rest\<rparr>))"
      using Cons.prems c Some by (auto simp: stop_signal_def)
    from Cons.hyps(1) [OF q m] show ?thesis
      by (subst iterate.simps) (simp add: next_chunk_def c Some stop_signal_def chunks_before_stop_def)
  qed
qed

lemma iterate_blocked:
  "stop_signal \<notin> set (queue st) \<Longrightarrow>
   iterate st = (map the (queue st), Blocked, st\<lparr>queue := []\<rparr>)"
proof (induction "queue st" arbitrary: st)
  case Nil
  then show ?case by (subst iterate.simps) (simp add: next_chunk_def)
next
  case (Cons v rest)
  note c = Cons.hyps(2) [symmetric]
  obtain ch where Some: "v = Some ch" using Cons.prems c by (cases v) (auto simp: stop_signal_def)
  have q: "rest = queue (st\<lparr>queue := rest\<rparr>)" by simp
  have m: "stop_signal \<notin> set (queue (st\<lparr>queue := rest\<rparr>))"
    using Cons.prems c by auto
  from Cons.hyps(1) [OF q m] show ?case
    by (subst iterate.simps) (simp add: next_chunk_def c Some stop_signal_def)
qed



lemma chunks_before_stop_Some:
  "chunks_before_stop (map Some cs @ rest) = cs @ chunks_before_stop rest"
  by (induction cs) (auto simp: chunks_before_stop_def stop_signal_def)

lemma chunks_before_stop_stop [simp]:
  "chunks_before_stop (None # rest) = []"
  by (simp add: chunks_before_stop_def stop_signal_def)

lemma sys_step_inv: "sys_inv items sys \<Longrightarrow> sys_inv items (sys_step m sys)"
proof (cases m)
  case Thread
  assume "sys_inv items sys"
  then show ?thesis
    by (cases "to_put sys") (auto simp: sys_step_def Thread sys_inv_def)
next
  case Consumer
  assume i: "sys_inv items sys"
  show ?thesis
  proof (cases "stopped sys")
    case True
    with i show ?thesis by (simp add: sys_step_def Consumer)
  next
    case False
    show ?thesis
    proof (cases "queue (streamer sys)")
      case Nil
      with i False show ?thesis by (simp add: sys_step_def Consumer next_chunk_def)
    next
      case (Cons v rest)
      show ?thesis
      proof (cases v)
        case None
        have "items = map Some (received sys) @ None # rest @ to_put sys"
          using i False Cons None by (simp add: sys_inv_def)
        then have "chunks_before_stop items = received sys"
          by (simp add: chunks_before_stop_Some)
        then show ?thesis
          using False Cons None
          by (simp add: sys_step_def Consumer next_chunk_def stop_signal_def sys_inv_def)
      next
        case (Some c)
        then show ?thesis
          using i False Cons
          by (simp add: sys_step_def Consumer next_chunk_def stop_signal_def sys_inv_def)
      qed
    qed
  qed
qed

lemma run_schedule_inv: "sys_inv items sys \<Longrightarrow> sys_inv items (run_schedule sched sys)"
  unfolding run_schedule_def
  by (induction sched arbitrary: sys) (simp_all add: sys_step_inv)

lemma sys_inv_prefix:
  assumes "sys_inv items sys"
  shows "prefix (received sys) (chunks_before_stop items)"
proof (cases "stopped sys")
  case True
  with assms show ?thesis by (simp add: sys_inv_def)
next
  case False
  with assms have "items = map Some (received sys) @ (queue (streamer sys) @ to_put sys)"
    by (simp add: sys_inv_def)
  then have "chunks_before_stop items =
      received sys @ chunks_before_stop (queue (streamer sys) @ to_put sys)"
    by (simp only: chunks_before_stop_Some)
  then show ?thesis by simp
qed

lemma start_system_inv:
  "sys_inv (queue (run_generation calls res st)) (start_system calls res st)"
proof -
  obtain pre where "queue (run_generation calls res st) = queue st @ pre @ [stop_signal]"
    using run_generation_queue by blast
  then show ?thesis by (simp add: sys_inv_def start_system_def)
qed


lemma run_schedule_Nil [simp]: "run_schedule [] sys = sys"
  by (simp add: run_schedule_def)

lemma run_schedule_Cons [simp]: "run_schedule (m # ms) sys = run_schedule ms (sys_step m sys)"
  by (simp add: run_schedule_def)

lemma run_schedule_append: "run_schedule (a @ b) sys = run_schedule b (run_schedule a sys)"
  by (simp add: run_schedule_def)

lemma thread_steps_to_put:
  "to_put (run_schedule (replicate k Thread) sys) = drop k (to_put sys)"
proof (induction k arbitrary: sys)
  case 0
  then show ?case by simp
next
  case (Suc k)
  have "to_put (sys_step Thread sys) = tl (to_put sys)"
    by (cases "to_put sys") (simp_all add: sys_step_def)
  then show ?case
    by (simp add: Suc.IH drop_Suc)
qed

lemma stopped_stays: "stopped sys \<Longrightarrow> stopped (run_schedule sched sys)"
proof (induction sched arbitrary: sys)
  case Nil
  then show ?case by simp
next
  case (Cons m ms)
  have "stopped (sys_step m sys)"
    using Cons.prems by (cases m; cases "to_put sys") (simp_all add: sys_step_def)
  then show ?case by (simp add: Cons.IH)
qed

lemma consumer_steps_stop:
  "to_put sys = [] \<Longrightarrow> stop_signal \<in> set (queue (streamer sys)) \<Longrightarrow>
   length (queue (streamer sys)) \<le> k \<Longrightarrow>
   stopped (run_schedule (replicate k Consumer) sys)"
proof (induction k arbitrary: sys)
  case 0
  then show ?case by simp
next
  case (Suc k)
  show ?case
  proof (cases "stopped sys")
    case True
    then show ?thesis by (rule stopped_stays)
  next
    case False
    obtain v rest where q: "queue (streamer sys) = v # rest"
      using Suc.prems(2) by (cases "queue (streamer sys)") auto
    show ?thesis
    proof (cases v)
      case None
      have "stopped (sys_step Consumer sys)"
        using False q None by (simp add: sys_step_def next_chunk_def stop_signal_def)
      then show ?thesis by (simp add: stopped_stays)
    next
      case (Some c)
      have e: "sys_step Consumer sys =
          sys\<lparr>streamer := (streamer sys)\<lparr>queue := rest\<rparr>, received := received sys @ [c]\<rparr>"
        using False q Some by (simp add: sys_step_def next_chunk_def stop_signal_def)
      have "stopped (run_schedule (replicate k Consumer) (sys_step Consumer sys))"
      proof (rule Suc.IH)
        show "to_put (sys_step Consumer sys) = []" using Suc.prems(1) by (simp add: e)
        show "stop_signal \<in> set (queue (streamer (sys_step Consumer sys)))"
          using Suc.prems(2) q Some by (auto simp: e stop_signal_def)
        show "length (queue (streamer (sys_step Consumer sys))) \<le> k"
          using Suc.prems(3) q by (simp add: e)
      qed
      then show ?thesis by simp
    qed
  qed
qed

lemma fair_schedule_stops:
  assumes k: "length (queue (run_generation calls res st)) \<le> k"
  shows "stopped (run_schedule (sched @ replicate k Thread @ replicate k Consumer)
                    (start_system calls res st))"
proof -
  let ?items = "queue (run_generation calls res st)"
  let ?s1 = "run_schedule sched (start_system calls res st)"
  let ?s2 = "run_schedule (replicate k Thread) ?s1"
  have i2: "sys_inv ?items ?s2"
    by (intro run_schedule_inv start_system_inv)
  have i1: "sys_inv ?items ?s1"
    by (intro run_schedule_inv start_system_inv)
  have goal: "run_schedule (sched @ replicate k Thread @ replicate k Consumer)
                (start_system calls res st) = run_schedule (replicate k Consumer) ?s2"
    by (simp add: run_schedule_append)
  show ?thesis
  proof (cases "stopped ?s2")
    case True
    then show ?thesis unfolding goal by (rule stopped_stays)
  next
    case False
    have ns1: "\<not> stopped ?s1"
      using False stopped_stays by blast
    with i1 have "map Some (received ?s1) @ queue (streamer ?s1) @ to_put ?s1 = ?items"
      by (simp add: sys_inv_def)
    then have "length ?items =
        length (received ?s1) + length (queue (streamer ?s1)) + length (to_put ?s1)"
      by (metis length_append length_map add.assoc)
    then have tp: "to_put ?s2 = []"
      using k by (simp add: thread_steps_to_put)
    from i2 False tp have e: "map Some (received ?s2) @ queue (streamer ?s2) = ?items"
      by (simp add: sys_inv_def)
    obtain pre where p: "?items = queue st @ pre @ [stop_signal]"
      using run_generation_queue by blast
    have "queue (streamer ?s2) \<noteq> []"
    proof
      assume "queue (streamer ?s2) = []"
      with e p have "map Some (received ?s2) = (queue st @ pre) @ [stop_signal]" by simp
      then have "stop_signal \<in> set (map Some (received ?s2))"
        by (metis in_set_conv_decomp)
      then show False by (auto simp: stop_signal_def)
    qed
    then have "last (queue (streamer ?s2)) = last ?items"
      using e by (metis last_appendR)
    also have "\<dots> = stop_signal" using p by simp
    finally have m: "stop_signal \<in> set (queue (streamer ?s2))"
      using \<open>queue (streamer ?s2) \<noteq> []\<close> last_in_set by metis
    have l: "length (queue (streamer ?s2)) \<le> k"
      using e k by (metis le_add2 length_append order_trans)
    show ?thesis unfolding goal
      by (rule consumer_steps_stop [OF tp m l])
  qed
qed


text \<open>
  C8. On every path of \<open>run_generation\<close> the last item put is the stop signal,
  and when \<^verbatim>\<open>generate\<close> raises an exception its text is the item just before.
  For a streamer returned by \<open>use_hf_default_streamer\<close> (its queue is empty),
  iterating after the thread has finished returns the chunks put before the
  first stop signal, in the order they were put, and stops, leaving what came
  after that stop signal; without a stop signal in the queue the iteration
  does not stop but waits. With the thread and the consumer interleaved in any
  way, the consumer has at any time received a prefix of those chunks, has
  received all of them when it has stopped, and does stop once the thread has
  put everything and the consumer has called \<^verbatim>\<open>__next__\<close> often enough.
\<close>

theorem stream_terminated_by_stop_signal:
  "(\<exists>pre. queue (run_generation calls res st) = queue st @ pre @ [stop_signal]
       \<and> (\<forall>msg. res = Raises_exception msg \<longrightarrow> (\<exists>pre'. pre = pre' @ [Some (Text msg)])))
   \<and> (use_hf_default_streamer tk inputs = Inr st \<longrightarrow>
        queue st = []
        \<and> iterate (run_generation calls res st) =
            (chunks_before_stop (queue (run_generation calls res st)), StopIteration,
             (run_generation calls res st)
               \<lparr>queue := tl (dropWhile (\<lambda>v. v \<noteq> stop_signal)
                                (queue (run_generation calls res st)))\<rparr>))
   \<and> (stop_signal \<notin> set (queue st') \<longrightarrow> fst (snd (iterate st')) = Blocked)
   \<and> prefix (received (run_schedule sched (start_system calls res st)))
        (chunks_before_stop (queue (run_generation calls res st)))
   \<and> (stopped (run_schedule sched (start_system calls res st)) \<longrightarrow>
        received (run_schedule sched (start_system calls res st)) =
          chunks_before_stop (queue (run_generation calls res st)))
   \<and> (length (queue (run_generation calls res st)) \<le> k \<longrightarrow>
        stopped (run_schedule (sched @ replicate k Thread @ replicate k Consumer)
                   (start_system calls res st)))"
proof (intro conjI impI)
  show "\<exists>pre. queue (run_generation calls res st) = queue st @ pre @ [stop_signal]
       \<and> (\<forall>msg. res = Raises_exception msg \<longrightarrow> (\<exists>pre'. pre = pre' @ [Some (Text msg)]))"
    by (rule run_generation_queue)
next
  assume "use_hf_default_streamer tk inputs = Inr st"
  then show "queue st = []"
    by (auto simp: use_hf_default_streamer_def Let_def new_streamer_def split: sum.splits)
next
  obtain pre where "queue (run_generation calls res st) = queue st @ pre @ [stop_signal]"
    using run_generation_queue by blast
  then have "stop_signal \<in> set (queue (run_generation calls res st))" by simp
  then show "iterate (run_generation calls res st) =
            (chunks_before_stop (queue (run_generation calls res st)), StopIteration,
             (run_generation calls res st)
               \<lparr>queue := tl (dropWhile (\<lambda>v. v \<noteq> stop_signal)
                                (queue (run_generation calls res st)))\<rparr>)"
    by (rule iterate_stop)
next
  assume "stop_signal \<notin> set (queue st')"
  then show "fst (snd (iterate st')) = Blocked"
    by (simp add: iterate_blocked)
next
  have i: "sys_inv (queue (run_generation calls res st))
             (run_schedule sched (start_system calls res st))"
    by (intro run_schedule_inv start_system_inv)
  then show "prefix (received (run_schedule sched (start_system calls res st)))
        (chunks_before_stop (queue (run_generation calls res st)))"
    by (rule sys_inv_prefix)
  assume "stopped (run_schedule sched (start_system calls res st))"
  with i show "received (run_schedule sched (start_system calls res st)) =
          chunks_before_stop (queue (run_generation calls res st))"
    by (simp add: sys_inv_def)
next
  assume "length (queue (run_generation calls res st)) \<le> k"
  then show "stopped (run_schedule (sched @ replicate k Thread @ replicate k Consumer)
                   (start_system calls res st))"
    by (rule fair_schedule_stops)
qed

theorem stream_terminated_by_stop_signal_witness:
  "use_hf_default_streamer plain_tokenizer [''hi'']
     = Inr (new_streamer (plain_tokenizer\<lparr>pad_token := Some ''</s>''\<rparr>))
   \<and> queue (run_generation [Put [[5]], Put [[6]]] (Raises_exception ''boom'')
              (new_streamer (plain_tokenizer\<lparr>pad_token := Some ''</s>''\<rparr>)))
       = [Some (Decoded [''tok'']), Some (Decoded [''tok'']), Some (Text ''boom''), stop_signal]
   \<and> fst (iterate (run_generation [Put [[5]], Put [[6]]] (Raises_exception ''boom'')
                    (new_streamer (plain_tokenizer\<lparr>pad_token := Some ''</s>''\<rparr>))))
       = [Decoded [''tok''], Decoded [''tok''], Text ''boom'']
   \<and> fst (snd (iterate (run_generation [Put [[5]], Put [[6]]] (Raises_exception ''boom'')
                    (new_streamer (plain_tokenizer\<lparr>pad_token := Some ''</s>''\<rparr>)))))
       = StopIteration
   \<and> stopped (run_schedule ([Consumer, Thread, Consumer] @ replicate 4 Thread @ replicate 4 Consumer)
        (start_system [Put [[5]], Put [[6]]] (Raises_exception ''boom'')
           (new_streamer (plain_tokenizer\<lparr>pad_token := Some ''</s>''\<rparr>))))
   \<and> received (run_schedule ([Consumer, Thread, Consumer] @ replicate 4 Thread @ replicate 4 Consumer)
        (start_system [Put [[5]], Put [[6]]] (Raises_exception ''boom'')
           (new_streamer (plain_tokenizer\<lparr>pad_token := Some ''</s>''\<rparr>))))
       = [Decoded [''tok''], Decoded [''tok''], Text ''boom'']"
proof -
  let ?st = "new_streamer (plain_tokenizer\<lparr>pad_token := Some ''</s>''\<rparr>)"
  let ?run = "run_generation [Put [[5]], Put [[6]]] (Raises_exception ''boom'') ?st"
  have u: "use_hf_default_streamer plain_tokenizer [''hi''] = Inr ?st"
    by (simp add: use_hf_default_streamer_def ensure_pad_token_def plain_tokenizer_def
          falsy_token_def Let_def)
  have q: "queue ?run =
      [Some (Decoded [''tok'']), Some (Decoded [''tok'']), Some (Text ''boom''), stop_signal]"
    by (simp add: run_generation_def put_def put_text_def end_stream_def new_streamer_def
          batch_decode_def plain_tokenizer_def Let_def)
  have c: "chunks_before_stop (queue ?run) = [Decoded [''tok''], Decoded [''tok''], Text ''boom'']"
    by (simp add: q chunks_before_stop_def stop_signal_def)
  have l: "length (queue ?run) \<le> 4"
    by (simp add: q)
  note t = stream_terminated_by_stop_signal
      [of "[Put [[5]], Put [[6]]]" "Raises_exception ''boom''" ?st plain_tokenizer "[''hi'']" ?st
          "[Consumer, Thread, Consumer]" 4]
  have s: "stopped (run_schedule ([Consumer, Thread, Consumer] @ replicate 4 Thread @ replicate 4 Consumer)
        (start_system [Put [[5]], Put [[6]]] (Raises_exception ''boom'') ?st))"
    using t l by blast
  note t2 = stream_terminated_by_stop_signal
      [of "[Put [[5]], Put [[6]]]" "Raises_exception ''boom''" ?st plain_tokenizer "[''hi'']" ?st
          "[Consumer, Thread, Consumer] @ replicate 4 Thread @ replicate 4 Consumer" 4]
  have r: "received (run_schedule ([Consumer, Thread, Consumer] @ replicate 4 Thread @ replicate 4 Consumer)
        (start_system [Put [[5]], Put [[6]]] (Raises_exception ''boom'') ?st))
      = chunks_before_stop (queue ?run)"
    using t2 s by blast
  have i: "iterate ?run = (chunks_before_stop (queue ?run), StopIteration,
             ?run\<lparr>queue := tl (dropWhile (\<lambda>v. v \<noteq> stop_signal) (queue ?run))\<rparr>)"
    using t u by blast
  have f1: "fst (iterate ?run) = [Decoded [''tok''], Decoded [''tok''], Text ''boom'']"
    by (simp only: i c fst_conv)
  have f2: "fst (snd (iterate ?run)) = StopIteration"
    by (simp only: i fst_conv snd_conv)
  from u q f1 f2 s r [unfolded c] show ?thesis
    by blast
qed


subsection \<open>The loop of the stream generator\<close>

lemma gen_step_facts:
  assumes "gen_step T M tk kw cls mx dm n s = Inr s'"
  shows "\<exists>token_ids eos pad.
     eos_token_id tk = Some eos \<and> pad_token_id tk = Some pad
     \<and> length token_ids = n \<and> length (all_decoder_input_ids s) = n
     \<and> all_decoder_input_ids s' = map2 (\<lambda>row t. row @ [t]) (all_decoder_input_ids s) token_ids
     \<and> unfinished_sequences s' =
         map2 (\<lambda>u t. u * (if t \<noteq> eos then 1 else 0)) (unfinished_sequences s) token_ids
     \<and> new_tokens_count s' = new_tokens_count s + 1
     \<and> stop_generation s' =
         has_met_stopping_criteria (unfinished_sequences s') (new_tokens_count s') mx
     \<and> step_ids cls s' = mask_finished pad token_ids (unfinished_sequences s')
     \<and> token_text s' = batch_decode tk (step_ids cls s')"
  using assms
  by (auto simp: gen_step_def Let_def step_ids_def
           split: prod.splits sum.splits option.splits generic_model_class.splits if_splits)

lemma loop_chain:
  "successively (step_rel T M tk kw cls mx dm n) (s # fst (gen_loop T M tk kw cls mx dm n s))"
proof (induction T M tk kw cls mx dm n s rule: gen_loop.induct)
  case (1 T M tk kw cls mx dm n s)
  show ?case
  proof (cases "stop_generation s")
    case True
    then show ?thesis by (simp add: gen_loop.simps)
  next
    case False
    show ?thesis
    proof (cases "gen_step T M tk kw cls mx dm n s")
      case (Inl e)
      with False show ?thesis by (simp add: gen_loop.simps)
    next
      case (Inr s')
      from "1.IH" [OF False Inr] False Inr show ?thesis
        by (auto simp: gen_loop.simps [of T M tk kw cls mx dm n s] step_rel_def split: prod.splits)
    qed
  qed
qed

lemma loop_last:
  "(case snd (gen_loop T M tk kw cls mx dm n s) of
      None \<Rightarrow> stop_generation (last (s # fst (gen_loop T M tk kw cls mx dm n s)))
    | Some e \<Rightarrow> \<not> stop_generation (last (s # fst (gen_loop T M tk kw cls mx dm n s)))
         \<and> gen_step T M tk kw cls mx dm n (last (s # fst (gen_loop T M tk kw cls mx dm n s))) = Inl e)"
proof (induction T M tk kw cls mx dm n s rule: gen_loop.induct)
  case (1 T M tk kw cls mx dm n s)
  show ?case
  proof (cases "stop_generation s")
    case True
    then show ?thesis by (simp add: gen_loop.simps)
  next
    case False
    show ?thesis
    proof (cases "gen_step T M tk kw cls mx dm n s")
      case (Inl e)
      with False show ?thesis by (simp add: gen_loop.simps)
    next
      case (Inr s')
      from "1.IH" [OF False Inr] False Inr show ?thesis
        by (auto simp: gen_loop.simps [of T M tk kw cls mx dm n s] split: prod.splits option.splits if_splits)
    qed
  qed
qed

lemma gen_step_row:
  assumes st: "gen_step T M tk kw cls mx dm n s = Inr s'"
    and len: "length (unfinished_sequences s) = n"
  shows "\<exists>eos pad. eos_token_id tk = Some eos \<and> pad_token_id tk = Some pad
     \<and> length (unfinished_sequences s') = n \<and> length (all_decoder_input_ids s') = n
     \<and> length (step_ids cls s') = n \<and> length (token_text s') = n
     \<and> new_tokens_count s' = new_tokens_count s + 1
     \<and> stop_generation s' =
         has_met_stopping_criteria (unfinished_sequences s') (new_tokens_count s') mx
     \<and> (\<forall>i<n.
           unfinished_sequences s' ! i =
             unfinished_sequences s ! i
               * (if last (all_decoder_input_ids s' ! i) \<noteq> eos then 1 else 0)
         \<and> step_ids cls s' ! i =
             [last (all_decoder_input_ids s' ! i) * unfinished_sequences s' ! i
                + pad * (if unfinished_sequences s' ! i = 0 then 1 else 0)]
         \<and> token_text s' ! i = decode tk (step_ids cls s' ! i))"
proof -
  from gen_step_facts [OF st] obtain token_ids eos pad where
    e: "eos_token_id tk = Some eos" and p: "pad_token_id tk = Some pad"
    and lt: "length token_ids = n" and la: "length (all_decoder_input_ids s) = n"
    and a: "all_decoder_input_ids s' =
              map2 (\<lambda>row t. row @ [t]) (all_decoder_input_ids s) token_ids"
    and u: "unfinished_sequences s' =
         map2 (\<lambda>u t. u * (if t \<noteq> eos then 1 else 0)) (unfinished_sequences s) token_ids"
    and c: "new_tokens_count s' = new_tokens_count s + 1"
    and sg: "stop_generation s' =
         has_met_stopping_criteria (unfinished_sequences s') (new_tokens_count s') mx"
    and si: "step_ids cls s' = mask_finished pad token_ids (unfinished_sequences s')"
    and tt: "token_text s' = batch_decode tk (step_ids cls s')"
    by blast
  have lu: "length (unfinished_sequences s') = n"
    by (simp add: u lt len)
  have lsi: "length (step_ids cls s') = n"
    by (simp add: si mask_finished_def lt lu)
  have rows: "\<forall>i<n.
           unfinished_sequences s' ! i =
             unfinished_sequences s ! i
               * (if last (all_decoder_input_ids s' ! i) \<noteq> eos then 1 else 0)
         \<and> step_ids cls s' ! i =
             [last (all_decoder_input_ids s' ! i) * unfinished_sequences s' ! i
                + pad * (if unfinished_sequences s' ! i = 0 then 1 else 0)]
         \<and> token_text s' ! i = decode tk (step_ids cls s' ! i)"
  proof (intro allI impI)
    fix i assume i: "i < n"
    have l: "last (all_decoder_input_ids s' ! i) = token_ids ! i"
      using i by (simp add: a lt la)
    have u': "unfinished_sequences s' ! i =
        unfinished_sequences s ! i * (if token_ids ! i \<noteq> eos then 1 else 0)"
      using i by (simp add: u lt len)
    have s': "step_ids cls s' ! i =
        [token_ids ! i * unfinished_sequences s' ! i
           + pad * (if unfinished_sequences s' ! i = 0 then 1 else 0)]"
      using i by (simp add: si mask_finished_def lt lu)
    have t': "token_text s' ! i = decode tk (step_ids cls s' ! i)"
      using i by (simp add: tt batch_decode_def lsi)
    show "unfinished_sequences s' ! i =
             unfinished_sequences s ! i
               * (if last (all_decoder_input_ids s' ! i) \<noteq> eos then 1 else 0)
         \<and> step_ids cls s' ! i =
             [last (all_decoder_input_ids s' ! i) * unfinished_sequences s' ! i
                + pad * (if unfinished_sequences s' ! i = 0 then 1 else 0)]
         \<and> token_text s' ! i = decode tk (step_ids cls s' ! i)"
      unfolding l using u' s' t' by blast
  qed
  show ?thesis
    using e p lu lsi c sg rows
    by (simp add: a lt la tt batch_decode_def)
qed

lemma chain_step:
  assumes "successively (step_rel T M tk kw cls mx dm n) xs" "Suc j < length xs"
  shows "\<not> stop_generation (xs ! j)"
    and "gen_step T M tk kw cls mx dm n (xs ! j) = Inr (xs ! Suc j)"
  using successively_nth [OF assms] by (simp_all add: step_rel_def)

lemma chain_len:
  assumes ch: "successively (step_rel T M tk kw cls mx dm n) xs"
    and l0: "length (unfinished_sequences (xs ! 0)) = n"
  shows "j < length xs \<Longrightarrow> length (unfinished_sequences (xs ! j)) = n"
proof (induction j)
  case 0
  then show ?case by (simp add: l0)
next
  case (Suc j)
  then have "length (unfinished_sequences (xs ! j)) = n" by simp
  from gen_step_row [OF chain_step(2) [OF ch Suc.prems] this] show ?case by blast
qed

lemma chain_count:
  assumes ch: "successively (step_rel T M tk kw cls mx dm n) xs"
  shows "j < length xs \<Longrightarrow> new_tokens_count (xs ! j) = new_tokens_count (xs ! 0) + int j"
proof (induction j)
  case 0
  then show ?case by simp
next
  case (Suc j)
  then have "new_tokens_count (xs ! j) = new_tokens_count (xs ! 0) + int j" by simp
  with gen_step_facts [OF chain_step(2) [OF ch Suc.prems]] show ?case by auto
qed

lemma chain_flags01:
  assumes ch: "successively (step_rel T M tk kw cls mx dm n) xs"
    and l0: "length (unfinished_sequences (xs ! 0)) = n"
    and f0: "\<forall>i<n. unfinished_sequences (xs ! 0) ! i \<in> {0, 1}"
  shows "j < length xs \<Longrightarrow> \<forall>i<n. unfinished_sequences (xs ! j) ! i \<in> {0, 1}"
proof (induction j)
  case 0
  then show ?case using f0 by simp
next
  case (Suc j)
  then have ih: "\<forall>i<n. unfinished_sequences (xs ! j) ! i \<in> {0, 1}" by simp
  have lj: "length (unfinished_sequences (xs ! j)) = n"
    using chain_len [OF ch l0] Suc.prems by simp
  from gen_step_row [OF chain_step(2) [OF ch Suc.prems] lj] ih show ?case
    by force
qed

lemma chain_mono:
  assumes ch: "successively (step_rel T M tk kw cls mx dm n) xs"
    and l0: "length (unfinished_sequences (xs ! 0)) = n"
    and f0: "\<forall>i<n. unfinished_sequences (xs ! 0) ! i \<in> {0, 1}"
    and i: "i < n"
  shows "k < length xs \<Longrightarrow> j \<le> k \<Longrightarrow>
     unfinished_sequences (xs ! k) ! i \<le> unfinished_sequences (xs ! j) ! i"
proof (induction k)
  case 0
  then show ?case by simp
next
  case (Suc k)
  show ?case
  proof (cases "j = Suc k")
    case True
    then show ?thesis by simp
  next
    case False
    with Suc.prems have jk: "j \<le> k" by simp
    have ih: "unfinished_sequences (xs ! k) ! i \<le> unfinished_sequences (xs ! j) ! i"
      using Suc.IH Suc.prems jk by simp
    have lk: "length (unfinished_sequences (xs ! k)) = n"
      using chain_len [OF ch l0] Suc.prems by simp
    have fk: "unfinished_sequences (xs ! k) ! i \<in> {0, 1}"
      using chain_flags01 [OF ch l0 f0, of k] Suc.prems i by simp
    from gen_step_row [OF chain_step(2) [OF ch Suc.prems(1)] lk] i
    have "unfinished_sequences (xs ! Suc k) ! i \<le> unfinished_sequences (xs ! k) ! i"
      using fk by force
    with ih show ?thesis by simp
  qed
qed

lemma chain_eos:
  assumes ch: "successively (step_rel T M tk kw cls mx dm n) xs"
    and l0: "length (unfinished_sequences (xs ! 0)) = n"
    and f0: "\<forall>i<n. unfinished_sequences (xs ! 0) ! i = 1"
    and i: "i < n" and e: "eos_token_id tk = Some eos"
  shows "j < length xs \<Longrightarrow>
     (unfinished_sequences (xs ! j) ! i = 0) =
       (\<exists>j'. 0 < j' \<and> j' \<le> j \<and> last (all_decoder_input_ids (xs ! j') ! i) = eos)"
proof (induction j)
  case 0
  then show ?case using f0 i by simp
next
  case (Suc j)
  then have ih: "(unfinished_sequences (xs ! j) ! i = 0) =
       (\<exists>j'. 0 < j' \<and> j' \<le> j \<and> last (all_decoder_input_ids (xs ! j') ! i) = eos)" by simp
  have lj: "length (unfinished_sequences (xs ! j)) = n"
    using chain_len [OF ch l0] Suc.prems by simp
  from gen_step_row [OF chain_step(2) [OF ch Suc.prems] lj] i e
  have u: "unfinished_sequences (xs ! Suc j) ! i =
             unfinished_sequences (xs ! j) ! i
               * (if last (all_decoder_input_ids (xs ! Suc j) ! i) \<noteq> eos then 1 else 0)"
    by auto
  show ?case
  proof (cases "last (all_decoder_input_ids (xs ! Suc j) ! i) = eos")
    case True
    then show ?thesis using u by auto
  next
    case False
    then have "(unfinished_sequences (xs ! Suc j) ! i = 0) = (unfinished_sequences (xs ! j) ! i = 0)"
      using u by simp
    also have "\<dots> = (\<exists>j'. 0 < j' \<and> j' \<le> j \<and> last (all_decoder_input_ids (xs ! j') ! i) = eos)"
      by (rule ih)
    also have "\<dots> = (\<exists>j'. 0 < j' \<and> j' \<le> Suc j \<and> last (all_decoder_input_ids (xs ! j') ! i) = eos)"
      using False by (metis le_Suc_eq)
    finally show ?thesis .
  qed
qed

lemma chain_stop:
  assumes ch: "successively (step_rel T M tk kw cls mx dm n) xs"
    and l0: "length (unfinished_sequences (xs ! 0)) = n"
    and j: "0 < j" "j < length xs"
  shows "stop_generation (xs ! j) =
     has_met_stopping_criteria (unfinished_sequences (xs ! j)) (new_tokens_count (xs ! j)) mx"
proof -
  obtain j' where j': "j = Suc j'" using j(1) by (cases j) auto
  have lj: "length (unfinished_sequences (xs ! j')) = n"
    using chain_len [OF ch l0, of j'] j j' by simp
  from gen_step_row [OF chain_step(2) [OF ch j(2) [unfolded j']] lj] show ?thesis
    unfolding j' by blast
qed

lemma chain_length:
  assumes ch: "successively (step_rel T M tk kw cls mx dm n) (s # tr)"
    and l0: "length (unfinished_sequences s) = n"
  shows "int (length tr) \<le> max 1 (mx - new_tokens_count s)"
proof (cases "length tr \<le> 1")
  case True
  then show ?thesis by simp
next
  case False
  let ?xs = "s # tr"
  let ?j = "length tr - 1"
  have j: "0 < ?j" "Suc ?j < length ?xs" using False by simp_all
  have ns: "\<not> stop_generation (?xs ! ?j)"
    by (rule chain_step(1) [OF ch j(2)])
  have "stop_generation (?xs ! ?j) =
     has_met_stopping_criteria (unfinished_sequences (?xs ! ?j)) (new_tokens_count (?xs ! ?j)) mx"
    using chain_stop [OF ch _ j(1)] l0 j(2) by simp
  with ns have "new_tokens_count (?xs ! ?j) < mx"
    by (auto simp: has_met_stopping_criteria_def split: if_splits)
  moreover have "new_tokens_count (?xs ! ?j) = new_tokens_count (?xs ! 0) + int ?j"
    using chain_count [OF ch, of ?j] j(2) by simp
  ultimately have "new_tokens_count s + int ?j < mx" by simp
  then show ?thesis using False by simp
qed

lemma initial_state_facts:
  "initial_state tk cls mx n ids tokenized_mask w = Inr s0 \<Longrightarrow>
     unfinished_sequences s0 = replicate n 1 \<and> new_tokens_count s0 = 0 \<and> \<not> stop_generation s0"
  by (auto simp: initial_state_def Let_def split: generic_model_class.splits if_splits option.splits)

lemma generator_loop:
  fixes M :: "('v, 'c, 'w) model"
  shows
  "(steps (hf_model_stream_generator T M tk inputs kw w) = []
      \<and> outcome (hf_model_stream_generator T M tk inputs kw w) \<noteq> None)
   \<or> (\<exists>l dm s0. inputs = Inputs_list l \<and> l \<noteq> []
        \<and> unfinished_sequences s0 = replicate (length l) 1 \<and> new_tokens_count s0 = 0
        \<and> \<not> stop_generation s0
        \<and> gen_loop T M (tokenizer_after (hf_model_stream_generator T M tk inputs kw w)) kw
             (snd (get_generic_model_class (config M))) (get_max_new_tokens kw)
             dm (length l) s0
           = (steps (hf_model_stream_generator T M tk inputs kw w),
              outcome (hf_model_stream_generator T M tk inputs kw w)))"
proof (cases "validate_inputs (config M) inputs")
  case (Pair warn1 v)
  show ?thesis
  proof (cases v)
    case (Inl e)
    then show ?thesis
      by (simp add: hf_model_stream_generator_def Pair failed_def)
  next
    case (Inr u)
    then obtain l where l: "inputs = Inputs_list l" "l \<noteq> []"
      using Pair by (cases inputs) (auto simp: validate_inputs_def Let_def Suc_le_eq split: if_splits)
    obtain warn2 cls where g: "get_generic_model_class (config M) = (warn2, cls)"
      by (cases "get_generic_model_class (config M)")
    define tk2 where "tk2 = set_bos_token cls (config M) (ensure_pad_token tk)"
    let ?r = "hf_model_stream_generator T M tk inputs kw w"
    have vi: "validate_inputs (config M) (Inputs_list l) = (warn1, Inr u)"
      using Pair Inr l by simp
    show ?thesis
    proof (cases "tokenizer_call tk2 (pad_token tk2) l")
      case (Inl e)
      then show ?thesis
        by (simp add: hf_model_stream_generator_def l(1) vi g Let_def tk2_def failed_def)
    next
      case tc: (Inr p)
      obtain ids tokenized_mask where p: "p = (ids, tokenized_mask)" by (cases p)
      show ?thesis
      proof (cases "get_decoding_method kw")
        case (Inl e)
        then show ?thesis
          using tc
          by (simp add: hf_model_stream_generator_def l(1) vi g Let_def tk2_def failed_def p)
      next
        case dm: (Inr dm)
        show ?thesis
        proof (cases "initial_state tk2 cls (get_max_new_tokens kw) (length l) ids tokenized_mask
                        (reset_if_neuronx M kw w) :: py_error + ('c, 'w) gen_state")
          case (Inl e)
          then show ?thesis
            using tc dm
            by (simp add: hf_model_stream_generator_def l(1) vi g Let_def tk2_def failed_def p)
        next
          case s0: (Inr s0)
          obtain tr out where
            lp: "gen_loop T M tk2 kw cls (get_max_new_tokens kw) dm (length l) s0 = (tr, out)"
            by (cases "gen_loop T M tk2 kw cls (get_max_new_tokens kw) dm (length l) s0")
          have req: "tokenizer_after ?r = tk2 \<and> steps ?r = tr \<and> outcome ?r = out"
            using tc dm s0 lp
            by (simp add: hf_model_stream_generator_def l(1) vi g Let_def tk2_def p)
          have "inputs = Inputs_list l \<and> l \<noteq> []
              \<and> unfinished_sequences s0 = replicate (length l) 1 \<and> new_tokens_count s0 = 0
              \<and> \<not> stop_generation s0
              \<and> gen_loop T M (tokenizer_after ?r) kw (snd (get_generic_model_class (config M)))
                   (get_max_new_tokens kw) dm (length l) s0 = (steps ?r, outcome ?r)"
            using l initial_state_facts [OF s0] lp req
            by (simp add: g)
          then show ?thesis by blast
        qed
      qed
    qed
  qed
qed

lemma generator_run:
  fixes M :: "('v, 'c, 'w) model"
  assumes r: "r = hf_model_stream_generator T M tk inputs kw w"
  obtains (early) "steps r = []" "outcome r \<noteq> None"
  | (looped) l dm s0 where "inputs = Inputs_list l" "l \<noteq> []"
      "successively (step_rel T M (tokenizer_after r) kw (snd (get_generic_model_class (config M)))
          (get_max_new_tokens kw) dm (length l)) (s0 # steps r)"
      "unfinished_sequences s0 = replicate (length l) 1" "new_tokens_count s0 = 0"
      "\<not> stop_generation s0"
      "case outcome r of
         None \<Rightarrow> stop_generation (last (s0 # steps r))
       | Some e \<Rightarrow> \<not> stop_generation (last (s0 # steps r))"
proof -
  from generator_loop [of T M tk inputs kw w]
  consider "steps r = [] \<and> outcome r \<noteq> None"
    | l dm s0 where "inputs = Inputs_list l \<and> l \<noteq> []
        \<and> unfinished_sequences s0 = replicate (length l) 1 \<and> new_tokens_count s0 = 0
        \<and> \<not> stop_generation s0
        \<and> gen_loop T M (tokenizer_after r) kw
             (snd (get_generic_model_class (config M))) (get_max_new_tokens kw)
             dm (length l) s0 = (steps r, outcome r)"
    unfolding r by blast
  then show thesis
  proof cases
    case 1
    then show ?thesis using early by blast
  next
    case 2
    let ?cls = "snd (get_generic_model_class (config M))"
    let ?mx = "get_max_new_tokens kw"
    let ?tk = "tokenizer_after r"
    have g: "gen_loop T M ?tk kw ?cls ?mx dm (length l) s0 = (steps r, outcome r)"
      using 2 by blast
    have ch: "successively (step_rel T M ?tk kw ?cls ?mx dm (length l)) (s0 # steps r)"
      using loop_chain [where T = T and M = M and tk = ?tk and kw = kw and cls = ?cls
          and mx = ?mx and dm = dm and n = "length l" and s = s0] by (simp add: g)
    have la: "case outcome r of
         None \<Rightarrow> stop_generation (last (s0 # steps r))
       | Some e \<Rightarrow> \<not> stop_generation (last (s0 # steps r))"
      using loop_last [where T = T and M = M and tk = ?tk and kw = kw and cls = ?cls
          and mx = ?mx and dm = dm and n = "length l" and s = s0]
      by (auto simp: g split: option.splits if_splits)
    show ?thesis
      using looped [of l dm s0] 2 ch la by blast
  qed
qed

lemma sum_flags:
  "list_all (\<lambda>u. u = 0 \<or> u = 1) flags \<Longrightarrow>
     (sum_list flags = 0) = (length (filter (\<lambda>u. u = (1::int)) flags) = 0)"
proof (induction flags)
  case Nil
  then show ?case by simp
next
  case (Cons u flags)
  then have "0 \<le> sum_list flags"
    by (auto intro!: sum_list_nonneg simp: list_all_iff)
  with Cons show ?case by auto
qed

lemma run_step_facts:
  fixes M :: "('v, 'c, 'w) model"
  assumes r: "r = hf_model_stream_generator T M tk inputs kw w"
    and j: "j < length (steps r)"
  shows "\<exists>l. inputs = Inputs_list l \<and> l \<noteq> []
     \<and> length (unfinished_sequences (steps r ! j)) = length l
     \<and> new_tokens_count (steps r ! j) = int j + 1
     \<and> (\<forall>i<length l. unfinished_sequences (steps r ! j) ! i \<in> {0, 1})
     \<and> stop_generation (steps r ! j) =
         has_met_stopping_criteria (unfinished_sequences (steps r ! j)) (int j + 1)
           (get_max_new_tokens kw)
     \<and> (stop_generation (steps r ! j) \<longleftrightarrow> Suc j = length (steps r) \<and> outcome r = None)
     \<and> (\<forall>eos i. eos_token_id (tokenizer_after r) = Some eos \<and> i < length l \<longrightarrow>
           (unfinished_sequences (steps r ! j) ! i = 0) =
           (\<exists>j'\<le>j. last (all_decoder_input_ids (steps r ! j') ! i) = eos))"
  using r
proof (cases rule: generator_run)
  case early
  with j show ?thesis by simp
next
  case (looped l dm s0)
  let ?xs = "s0 # steps r"
  let ?n = "length l"
  note ch = looped(3)
  have l0: "length (unfinished_sequences (?xs ! 0)) = ?n"
    by (simp add: looped(4))
  have f0: "\<forall>i<?n. unfinished_sequences (?xs ! 0) ! i \<in> {0, 1}"
    by (simp add: looped(4))
  have f1: "\<forall>i<?n. unfinished_sequences (?xs ! 0) ! i = 1"
    by (simp add: looped(4))
  have sj: "Suc j < length ?xs" using j by simp
  have len: "length (unfinished_sequences (steps r ! j)) = ?n"
    using chain_len [OF ch l0 sj] by simp
  have cnt: "new_tokens_count (steps r ! j) = int j + 1"
    using chain_count [OF ch sj] by (simp add: looped(5))
  have fl: "\<forall>i<?n. unfinished_sequences (steps r ! j) ! i \<in> {0, 1}"
    using chain_flags01 [OF ch l0 f0 sj] by simp
  have st: "stop_generation (steps r ! j) =
         has_met_stopping_criteria (unfinished_sequences (steps r ! j)) (int j + 1)
           (get_max_new_tokens kw)"
    using chain_stop [OF ch l0 _ sj] cnt by simp
  have last_iff: "stop_generation (steps r ! j) \<longleftrightarrow> Suc j = length (steps r) \<and> outcome r = None"
  proof (cases "Suc j = length (steps r)")
    case True
    then have "steps r \<noteq> []" "length (steps r) - Suc 0 = j"
      by auto
    then have "last ?xs = steps r ! j"
      by (simp add: last_conv_nth)
    with looped(7) True show ?thesis
      by (cases "outcome r") simp_all
  next
    case False
    with j have "Suc (Suc j) < length ?xs" by simp
    from chain_step(1) [OF ch this] False show ?thesis by simp
  qed
  have eos: "\<forall>eos i. eos_token_id (tokenizer_after r) = Some eos \<and> i < ?n \<longrightarrow>
           (unfinished_sequences (steps r ! j) ! i = 0) =
           (\<exists>j'\<le>j. last (all_decoder_input_ids (steps r ! j') ! i) = eos)"
  proof (intro allI impI)
    fix eos i
    assume a: "eos_token_id (tokenizer_after r) = Some eos \<and> i < ?n"
    then have e: "eos_token_id (tokenizer_after r) = Some eos" and i: "i < ?n" by simp_all
    have "(unfinished_sequences (?xs ! Suc j) ! i = 0) =
       (\<exists>j'. 0 < j' \<and> j' \<le> Suc j \<and> last (all_decoder_input_ids (?xs ! j') ! i) = eos)"
      by (rule chain_eos [OF ch l0 f1 i e sj])
    also have "\<dots> = (\<exists>j'\<le>j. last (all_decoder_input_ids (steps r ! j') ! i) = eos)"
    proof
      assume "\<exists>j'. 0 < j' \<and> j' \<le> Suc j \<and> last (all_decoder_input_ids (?xs ! j') ! i) = eos"
      then obtain j' where j': "0 < j'" "j' \<le> Suc j"
          "last (all_decoder_input_ids (?xs ! j') ! i) = eos" by blast
      then obtain k where k: "j' = Suc k" by (cases j') auto
      with j' have "k \<le> j \<and> last (all_decoder_input_ids (steps r ! k) ! i) = eos" by simp
      then show "\<exists>j'\<le>j. last (all_decoder_input_ids (steps r ! j') ! i) = eos" by blast
    next
      assume "\<exists>j'\<le>j. last (all_decoder_input_ids (steps r ! j') ! i) = eos"
      then obtain k where "k \<le> j" "last (all_decoder_input_ids (steps r ! k) ! i) = eos"
        by blast
      then have "0 < Suc k \<and> Suc k \<le> Suc j
          \<and> last (all_decoder_input_ids (?xs ! Suc k) ! i) = eos" by simp
      then show "\<exists>j'. 0 < j' \<and> j' \<le> Suc j \<and> last (all_decoder_input_ids (?xs ! j') ! i) = eos"
        by blast
    qed
    finally show "(unfinished_sequences (steps r ! j) ! i = 0) =
           (\<exists>j'\<le>j. last (all_decoder_input_ids (steps r ! j') ! i) = eos)"
      by simp
  qed
  show ?thesis
    using looped(1,2) len cnt fl st last_iff eos by blast
qed

lemma run_returns_after_a_step:
  fixes M :: "('v, 'c, 'w) model"
  assumes r: "r = hf_model_stream_generator T M tk inputs kw w"
    and o: "outcome r = None"
  shows "steps r \<noteq> []"
  using r
proof (cases rule: generator_run)
  case early
  with o show ?thesis by simp
next
  case (looped l dm s0)
  from looped(7) o have "stop_generation (last (s0 # steps r))" by simp
  with looped(6) show ?thesis by auto
qed

lemma run_monotone:
  fixes M :: "('v, 'c, 'w) model"
  assumes r: "r = hf_model_stream_generator T M tk inputs kw w"
    and k: "k < length (steps r)" and jk: "j \<le> k"
    and inp: "inputs = Inputs_list l" and i: "i < length l"
  shows "unfinished_sequences (steps r ! k) ! i \<le> unfinished_sequences (steps r ! j) ! i"
  using r
proof (cases rule: generator_run)
  case early
  with k show ?thesis by simp
next
  case (looped l' dm s0)
  have ll: "l' = l" using looped(1) inp by simp
  let ?xs = "s0 # steps r"
  note ch = looped(3) [unfolded ll]
  have l0: "length (unfinished_sequences (?xs ! 0)) = length l"
    by (simp add: looped(4) ll)
  have f0: "\<forall>i<length l. unfinished_sequences (?xs ! 0) ! i \<in> {0, 1}"
    by (simp add: looped(4) ll)
  have "unfinished_sequences (?xs ! Suc k) ! i \<le> unfinished_sequences (?xs ! Suc j) ! i"
    by (rule chain_mono [OF ch l0 f0 i]) (use k jk in simp_all)
  then show ?thesis by simp
qed

lemma run_pad:
  fixes M :: "('v, 'c, 'w) model"
  assumes r: "r = hf_model_stream_generator T M tk inputs kw w"
    and k: "k < length (steps r)"
    and inp: "inputs = Inputs_list l" and i: "i < length l"
  shows "\<exists>pad. pad_token_id (tokenizer_after r) = Some pad
     \<and> length (yields r ! k) = length l
     \<and> (unfinished_sequences (steps r ! k) ! i = 0 \<longrightarrow>
          step_ids (snd (get_generic_model_class (config M))) (steps r ! k) ! i = [pad]
          \<and> yields r ! k ! i = decode (tokenizer_after r) [pad])"
  using r
proof (cases rule: generator_run)
  case early
  with k show ?thesis by simp
next
  case (looped l' dm s0)
  have ll: "l' = l" using looped(1) inp by simp
  let ?xs = "s0 # steps r"
  note ch = looped(3) [unfolded ll]
  have l0: "length (unfinished_sequences (?xs ! 0)) = length l"
    by (simp add: looped(4) ll)
  have sk: "Suc k < length ?xs" using k by simp
  have lk: "length (unfinished_sequences (?xs ! k)) = length l"
    using chain_len [OF ch l0, of k] k by simp
  from gen_step_row [OF chain_step(2) [OF ch sk] lk] i k show ?thesis
    by (auto simp: yields_def)
qed

lemmas run_simps =
  hf_model_stream_generator_def validate_inputs_def script_model_def arch_list_def
  get_generic_model_class_def ensure_pad_token_def set_bos_token_def plain_tokenizer_def
  falsy_token_def get_max_new_tokens_def get_decoding_method_def no_kwargs_def
  initial_state_def reset_if_neuronx_def gen_loop.simps gen_step_def
  call_decoding_method_def greedy_decoding_def greedy_processors_def echo_torch_def
  LogitsProcessorList_call_def eos_token_id_def pad_token_id_def mask_finished_def
  has_met_stopping_criteria_def batch_decode_def Let_def yields_def failed_def
  DEFAULT_MAX_NEW_TOKENS_def

text \<open>
  C2. \<open>has_met_stopping_criteria\<close> is true exactly when the flags sum to zero
  or the count has reached the bound, and for flags that are 0 or 1 the sum is
  zero exactly when no sequence is unfinished. In every run of the stream
  generator, step \<open>j + 1\<close> ends with the count \<open>j + 1\<close> and with
  \<open>stop_generation\<close> set to the criterion on its flags and count; a flag is 0
  exactly when the row has emitted the end-of-sequence token in this step or
  an earlier one; the step has \<open>stop_generation\<close> set exactly when it is the
  last step of a run that returns; and a run that returns has made a step. So
  a run that returns stops at the first step that meets the criterion.
\<close>

theorem generation_stops_at_first_step_meeting_criteria:
  fixes M :: "('v, 'c, 'w) model"
  assumes r: "r = hf_model_stream_generator T M tk inputs kw w"
  shows "(has_met_stopping_criteria flags c m \<longleftrightarrow> sum_list flags = 0 \<or> c \<ge> m)
   \<and> (list_all (\<lambda>u. u = 0 \<or> u = 1) flags \<longrightarrow>
        (has_met_stopping_criteria flags c m \<longleftrightarrow>
           length (filter (\<lambda>u. u = 1) flags) = 0 \<or> c \<ge> m))
   \<and> (\<forall>j<length (steps r).
        new_tokens_count (steps r ! j) = int j + 1
        \<and> list_all (\<lambda>u. u = 0 \<or> u = 1) (unfinished_sequences (steps r ! j))
        \<and> stop_generation (steps r ! j) =
            has_met_stopping_criteria (unfinished_sequences (steps r ! j)) (int j + 1)
              (get_max_new_tokens kw)
        \<and> (stop_generation (steps r ! j) \<longleftrightarrow> Suc j = length (steps r) \<and> outcome r = None)
        \<and> (\<forall>eos i. eos_token_id (tokenizer_after r) = Some eos
                 \<and> i < length (unfinished_sequences (steps r ! j)) \<longrightarrow>
             (unfinished_sequences (steps r ! j) ! i = 0) =
             (\<exists>j'\<le>j. last (all_decoder_input_ids (steps r ! j') ! i) = eos)))
   \<and> (outcome r = None \<longrightarrow> steps r \<noteq> [])"
proof (intro conjI allI impI)
  show "has_met_stopping_criteria flags c m \<longleftrightarrow> sum_list flags = 0 \<or> c \<ge> m"
    by (simp add: has_met_stopping_criteria_def)
next
  assume "list_all (\<lambda>u. u = 0 \<or> u = 1) flags"
  from sum_flags [OF this]
  show "has_met_stopping_criteria flags c m \<longleftrightarrow>
           length (filter (\<lambda>u. u = 1) flags) = 0 \<or> c \<ge> m"
    by (simp add: has_met_stopping_criteria_def)
next
  fix j assume j: "j < length (steps r)"
  from run_step_facts [OF r j] obtain l :: "string list" where
    f: "length (unfinished_sequences (steps r ! j)) = length l"
      "new_tokens_count (steps r ! j) = int j + 1"
      "\<forall>i<length l. unfinished_sequences (steps r ! j) ! i \<in> {0, 1}"
      "stop_generation (steps r ! j) =
         has_met_stopping_criteria (unfinished_sequences (steps r ! j)) (int j + 1)
           (get_max_new_tokens kw)"
      "stop_generation (steps r ! j) \<longleftrightarrow> Suc j = length (steps r) \<and> outcome r = None"
      "\<forall>eos i. eos_token_id (tokenizer_after r) = Some eos \<and> i < length l \<longrightarrow>
           (unfinished_sequences (steps r ! j) ! i = 0) =
           (\<exists>j'\<le>j. last (all_decoder_input_ids (steps r ! j') ! i) = eos)"
    by blast
  show "new_tokens_count (steps r ! j) = int j + 1" by (rule f(2))
  show "list_all (\<lambda>u. u = 0 \<or> u = 1) (unfinished_sequences (steps r ! j))"
    using f(1,3) by (simp add: list_all_length)
  show "stop_generation (steps r ! j) =
            has_met_stopping_criteria (unfinished_sequences (steps r ! j)) (int j + 1)
              (get_max_new_tokens kw)" by (rule f(4))
  show "stop_generation (steps r ! j) \<longleftrightarrow> Suc j = length (steps r) \<and> outcome r = None"
    by (rule f(5))
  fix eos i
  assume "eos_token_id (tokenizer_after r) = Some eos
                 \<and> i < length (unfinished_sequences (steps r ! j))"
  then show "(unfinished_sequences (steps r ! j) ! i = 0) =
             (\<exists>j'\<le>j. last (all_decoder_input_ids (steps r ! j') ! i) = eos)"
    using f(1,6) by simp
next
  assume "outcome r = None"
  then show "steps r \<noteq> []"
    by (rule run_returns_after_a_step [OF r])
qed

theorem generation_stops_at_first_step_meeting_criteria_witness:
  "length (steps (hf_model_stream_generator echo_torch
      (script_model None [[5, 2], [6, 7], [8, 9], [1, 1]]) plain_tokenizer
      (Inputs_list [''hello'', ''you'']) (no_kwargs\<lparr>max_new_tokens := Some 3\<rparr>) 0)) = 3
   \<and> new_tokens_count (steps (hf_model_stream_generator echo_torch
      (script_model None [[5, 2], [6, 7], [8, 9], [1, 1]]) plain_tokenizer
      (Inputs_list [''hello'', ''you'']) (no_kwargs\<lparr>max_new_tokens := Some 3\<rparr>) 0) ! 2) = 3
   \<and> stop_generation (steps (hf_model_stream_generator echo_torch
      (script_model None [[5, 2], [6, 7], [8, 9], [1, 1]]) plain_tokenizer
      (Inputs_list [''hello'', ''you'']) (no_kwargs\<lparr>max_new_tokens := Some 3\<rparr>) 0) ! 2)
   \<and> outcome (hf_model_stream_generator echo_torch
      (script_model None [[5, 2], [6, 7], [8, 9], [1, 1]]) plain_tokenizer
      (Inputs_list [''hello'', ''you'']) (no_kwargs\<lparr>max_new_tokens := Some 3\<rparr>) 0) = None
   \<and> has_met_stopping_criteria [1, 0] 3 3
   \<and> list_all (\<lambda>u. u = 0 \<or> u = (1 :: int)) [1, 0]"
proof -
  let ?r = "hf_model_stream_generator echo_torch
      (script_model None [[5, 2], [6, 7], [8, 9], [1, 1]]) plain_tokenizer
      (Inputs_list [''hello'', ''you'']) (no_kwargs\<lparr>max_new_tokens := Some 3\<rparr>) 0"
  have len: "length (steps ?r) = 3"
    by (simp add: run_simps)
  have out: "outcome ?r = None"
    by (simp add: run_simps)
  have fl: "list_all (\<lambda>u. u = 0 \<or> u = (1 :: int)) [1, 0]"
    by simp
  note t = generation_stops_at_first_step_meeting_criteria
             [of ?r echo_torch "script_model None [[5, 2], [6, 7], [8, 9], [1, 1]]"
                 plain_tokenizer "Inputs_list [''hello'', ''you'']"
                 "no_kwargs\<lparr>max_new_tokens := Some 3\<rparr>" 0 "[1, 0]" 3 3, OF refl]
  have j: "2 < length (steps ?r)" by (simp add: len)
  note t2 = t [THEN conjunct2, THEN conjunct2, THEN conjunct1, rule_format, OF j]
  have c: "new_tokens_count (steps ?r ! 2) = 3"
    using t2 [THEN conjunct1] by simp
  have s: "stop_generation (steps ?r ! 2)"
    using t2 [THEN conjunct2, THEN conjunct2, THEN conjunct2, THEN conjunct1] len out by simp
  have h: "has_met_stopping_criteria [1, 0] 3 3"
    using t [THEN conjunct1] by simp
  show ?thesis
    using len c s out h fl by blast
qed

text \<open>
  C9. In every run of the stream generator on a list of inputs, at every step
  each row's unfinished flag is 0 or 1 and is not larger than at any earlier
  step; a row whose token at a step is the end-of-sequence token has flag 0 at
  that step; and a row with flag 0 at a step has flag 0 at every later step,
  where the id decoded for it is the pad token id and the text yielded for it
  is the decoded pad token.
\<close>

theorem finished_rows_stay_finished_and_yield_pad:
  fixes M :: "('v, 'c, 'w) model"
  assumes r: "r = hf_model_stream_generator T M tk inputs kw w"
  shows "\<forall>j k i l. j \<le> k \<and> k < length (steps r) \<and> inputs = Inputs_list l \<and> i < length l \<longrightarrow>
      length (unfinished_sequences (steps r ! k)) = length l
      \<and> length (yields r ! k) = length l
      \<and> (unfinished_sequences (steps r ! k) ! i = 0 \<or> unfinished_sequences (steps r ! k) ! i = 1)
      \<and> unfinished_sequences (steps r ! k) ! i \<le> unfinished_sequences (steps r ! j) ! i
      \<and> (\<forall>eos. eos_token_id (tokenizer_after r) = Some eos
              \<and> last (all_decoder_input_ids (steps r ! j) ! i) = eos \<longrightarrow>
            unfinished_sequences (steps r ! j) ! i = 0)
      \<and> (unfinished_sequences (steps r ! j) ! i = 0 \<longrightarrow>
            unfinished_sequences (steps r ! k) ! i = 0
            \<and> (\<exists>pad. pad_token_id (tokenizer_after r) = Some pad
                 \<and> step_ids (snd (get_generic_model_class (config M))) (steps r ! k) ! i = [pad]
                 \<and> yields r ! k ! i = decode (tokenizer_after r) [pad]))"
proof (intro allI impI)
  fix j k i l
  assume a: "j \<le> k \<and> k < length (steps r) \<and> inputs = Inputs_list l \<and> i < length l"
  then have jk: "j \<le> k" and k: "k < length (steps r)" and inp: "inputs = Inputs_list l"
    and i: "i < length l" by simp_all
  have j: "j < length (steps r)" using jk k by simp
  from run_step_facts [OF r k] inp have
    fk: "length (unfinished_sequences (steps r ! k)) = length l"
        "\<forall>i<length l. unfinished_sequences (steps r ! k) ! i \<in> {0, 1}"
    by auto
  from run_step_facts [OF r j] inp have
    fj: "\<forall>eos i. eos_token_id (tokenizer_after r) = Some eos \<and> i < length l \<longrightarrow>
           (unfinished_sequences (steps r ! j) ! i = 0) =
           (\<exists>j'\<le>j. last (all_decoder_input_ids (steps r ! j') ! i) = eos)"
        "\<forall>i<length l. unfinished_sequences (steps r ! j) ! i \<in> {0, 1}"
    by auto
  have mono: "unfinished_sequences (steps r ! k) ! i \<le> unfinished_sequences (steps r ! j) ! i"
    by (rule run_monotone [OF r k jk inp i])
  from run_pad [OF r k inp i] obtain pad where
    p: "pad_token_id (tokenizer_after r) = Some pad"
       "length (yields r ! k) = length l"
       "unfinished_sequences (steps r ! k) ! i = 0 \<longrightarrow>
          step_ids (snd (get_generic_model_class (config M))) (steps r ! k) ! i = [pad]
          \<and> yields r ! k ! i = decode (tokenizer_after r) [pad]"
    by blast
  have z: "unfinished_sequences (steps r ! j) ! i = 0 \<longrightarrow>
      unfinished_sequences (steps r ! k) ! i = 0"
    using mono fk(2) i by force
  have e: "\<forall>eos. eos_token_id (tokenizer_after r) = Some eos
              \<and> last (all_decoder_input_ids (steps r ! j) ! i) = eos \<longrightarrow>
            unfinished_sequences (steps r ! j) ! i = 0"
    using fj(1) i by blast
  show "length (unfinished_sequences (steps r ! k)) = length l
      \<and> length (yields r ! k) = length l
      \<and> (unfinished_sequences (steps r ! k) ! i = 0 \<or> unfinished_sequences (steps r ! k) ! i = 1)
      \<and> unfinished_sequences (steps r ! k) ! i \<le> unfinished_sequences (steps r ! j) ! i
      \<and> (\<forall>eos. eos_token_id (tokenizer_after r) = Some eos
              \<and> last (all_decoder_input_ids (steps r ! j) ! i) = eos \<longrightarrow>
            unfinished_sequences (steps r ! j) ! i = 0)
      \<and> (unfinished_sequences (steps r ! j) ! i = 0 \<longrightarrow>
            unfinished_sequences (steps r ! k) ! i = 0
            \<and> (\<exists>pad. pad_token_id (tokenizer_after r) = Some pad
                 \<and> step_ids (snd (get_generic_model_class (config M))) (steps r ! k) ! i = [pad]
                 \<and> yields r ! k ! i = decode (tokenizer_after r) [pad]))"
    using fk i mono p z e by auto
qed

theorem finished_rows_stay_finished_and_yield_pad_witness:
  "last (all_decoder_input_ids (steps (hf_model_stream_generator echo_torch
      (script_model None [[5, 2], [6, 7], [8, 9], [1, 1]]) plain_tokenizer
      (Inputs_list [''hello'', ''you'']) (no_kwargs\<lparr>max_new_tokens := Some 3\<rparr>) 0) ! 0) ! 1) = 2
   \<and> eos_token_id (tokenizer_after (hf_model_stream_generator echo_torch
      (script_model None [[5, 2], [6, 7], [8, 9], [1, 1]]) plain_tokenizer
      (Inputs_list [''hello'', ''you'']) (no_kwargs\<lparr>max_new_tokens := Some 3\<rparr>) 0)) = Some 2
   \<and> unfinished_sequences (steps (hf_model_stream_generator echo_torch
      (script_model None [[5, 2], [6, 7], [8, 9], [1, 1]]) plain_tokenizer
      (Inputs_list [''hello'', ''you'']) (no_kwargs\<lparr>max_new_tokens := Some 3\<rparr>) 0) ! 0) ! 1 = 0
   \<and> unfinished_sequences (steps (hf_model_stream_generator echo_torch
      (script_model None [[5, 2], [6, 7], [8, 9], [1, 1]]) plain_tokenizer
      (Inputs_list [''hello'', ''you'']) (no_kwargs\<lparr>max_new_tokens := Some 3\<rparr>) 0) ! 2) ! 1 = 0
   \<and> last (all_decoder_input_ids (steps (hf_model_stream_generator echo_torch
      (script_model None [[5, 2], [6, 7], [8, 9], [1, 1]]) plain_tokenizer
      (Inputs_list [''hello'', ''you'']) (no_kwargs\<lparr>max_new_tokens := Some 3\<rparr>) 0) ! 2) ! 1) = 9
   \<and> yields (hf_model_stream_generator echo_torch
      (script_model None [[5, 2], [6, 7], [8, 9], [1, 1]]) plain_tokenizer
      (Inputs_list [''hello'', ''you'']) (no_kwargs\<lparr>max_new_tokens := Some 3\<rparr>) 0) ! 2 ! 1
       = decode plain_tokenizer [2]"
proof -
  let ?r = "hf_model_stream_generator echo_torch
      (script_model None [[5, 2], [6, 7], [8, 9], [1, 1]]) plain_tokenizer
      (Inputs_list [''hello'', ''you'']) (no_kwargs\<lparr>max_new_tokens := Some 3\<rparr>) 0"
  have len: "length (steps ?r) = 3"
    by (simp add: run_simps)
  have eos: "eos_token_id (tokenizer_after ?r) = Some 2"
    by (simp add: run_simps)
  have pad: "pad_token_id (tokenizer_after ?r) = Some 2"
    by (simp add: run_simps)
  have dec: "decode (tokenizer_after ?r) [2] = decode plain_tokenizer [2]"
    by (simp add: run_simps)
  have t0: "last (all_decoder_input_ids (steps ?r ! 0) ! 1) = 2"
    by (simp add: run_simps)
  have t2: "last (all_decoder_input_ids (steps ?r ! 2) ! 1) = 9"
    by (simp add: run_simps)
  have h: "(0::nat) \<le> 2 \<and> 2 < length (steps ?r)
      \<and> Inputs_list [''hello'', ''you''] = Inputs_list [''hello'', ''you'']
      \<and> 1 < length [''hello'', ''you'']"
    by (simp add: len)
  note t = finished_rows_stay_finished_and_yield_pad
      [of ?r echo_torch "script_model None [[5, 2], [6, 7], [8, 9], [1, 1]]" plain_tokenizer
          "Inputs_list [''hello'', ''you'']" "no_kwargs\<lparr>max_new_tokens := Some 3\<rparr>" 0,
       OF refl, rule_format, OF h]
  have u0: "unfinished_sequences (steps ?r ! 0) ! 1 = 0"
    using t eos t0 by blast
  have u2: "unfinished_sequences (steps ?r ! 2) ! 1 = 0"
    using t u0 by blast
  have y: "yields ?r ! 2 ! 1 = decode plain_tokenizer [2]"
    using t u0 pad dec by auto
  show ?thesis
    using t0 eos u0 u2 t2 y by blast
qed

lemma run_length:
  fixes M :: "('v, 'c, 'w) model"
  assumes r: "r = hf_model_stream_generator T M tk inputs kw w"
  shows "int (length (steps r)) \<le> max 1 (get_max_new_tokens kw)"
  using r
proof (cases rule: generator_run)
  case early
  then show ?thesis by simp
next
  case (looped l dm s0)
  have "length (unfinished_sequences s0) = length l" by (simp add: looped(4))
  from chain_length [OF looped(3) this] show ?thesis by (simp add: looped(5))
qed

text \<open>
  C10. Without \<open>max_new_tokens\<close> in the keyword arguments the bound of the
  generator is \<open>DEFAULT_MAX_NEW_TOKENS\<close>, which is 50, and the stream yields at
  most 50 times. In general the number of yields is at most the bound, or 1
  when the bound is smaller. The run then ends: the loop is a total function,
  and a run that returns does so after a step that set \<open>stop_generation\<close>.
\<close>

theorem default_bound_limits_yields:
  fixes M :: "('v, 'c, 'w) model"
  assumes r: "r = hf_model_stream_generator T M tk inputs kw w"
  shows "(max_new_tokens kw = None \<longrightarrow>
            get_max_new_tokens kw = DEFAULT_MAX_NEW_TOKENS \<and> DEFAULT_MAX_NEW_TOKENS = 50
            \<and> length (yields r) \<le> 50)
   \<and> int (length (yields r)) \<le> max 1 (get_max_new_tokens kw)
   \<and> (outcome r = None \<longrightarrow> steps r \<noteq> [] \<and> stop_generation (last (steps r)))"
proof (intro conjI impI)
  assume n: "max_new_tokens kw = None"
  then show "get_max_new_tokens kw = DEFAULT_MAX_NEW_TOKENS"
    by (simp add: get_max_new_tokens_def)
  show "DEFAULT_MAX_NEW_TOKENS = 50"
    by (simp add: DEFAULT_MAX_NEW_TOKENS_def)
  from run_length [OF r] n show "length (yields r) \<le> 50"
    by (simp add: yields_def get_max_new_tokens_def DEFAULT_MAX_NEW_TOKENS_def)
next
  from run_length [OF r] show "int (length (yields r)) \<le> max 1 (get_max_new_tokens kw)"
    by (simp add: yields_def)
next
  assume o: "outcome r = None"
  show ne: "steps r \<noteq> []"
    by (rule run_returns_after_a_step [OF r o])
  then have "length (steps r) - 1 < length (steps r)" by simp
  from run_step_facts [OF r this] o ne show "stop_generation (last (steps r))"
    by (auto simp: last_conv_nth)
qed


theorem default_bound_limits_yields_witness:
  "max_new_tokens no_kwargs = None
   \<and> get_max_new_tokens no_kwargs = 50
   \<and> length (yields (hf_model_stream_generator echo_torch
        (script_model None (replicate 60 [5])) plain_tokenizer
        (Inputs_list [''hello'']) no_kwargs 0)) \<le> 50
   \<and> length (yields (hf_model_stream_generator echo_torch
        (script_model None (replicate 60 [5])) plain_tokenizer
        (Inputs_list [''hello'']) no_kwargs 0)) = 50"
proof -
  let ?r = "hf_model_stream_generator echo_torch
        (script_model None (replicate 60 [5])) plain_tokenizer
        (Inputs_list [''hello'']) no_kwargs 0"
  have n: "max_new_tokens no_kwargs = None"
    by (simp add: no_kwargs_def)
  have ev: "length (yields ?r) = 50"
    by (simp add: run_simps)
  note t = default_bound_limits_yields
      [of ?r echo_torch "script_model None (replicate 60 [5])" plain_tokenizer
          "Inputs_list [''hello'']" no_kwargs 0, OF refl]
  have b: "get_max_new_tokens no_kwargs = 50 \<and> length (yields ?r) \<le> 50"
    using t [THEN conjunct1] n by simp
  show ?thesis
    using n b ev by blast
qed

end
